theory Spec2Isabelle
  imports Main "HOL-Library.AList"
begin

section \<open>The WebGPU plugin: resource memoization and frame scheduling\<close>

text \<open>
  A shallow embedding of the plugin module (the file that defines
  \<^verbatim>\<open>webGPUPluginCreator\<close> with its \<^verbatim>\<open>exec\<close> and \<^verbatim>\<open>dispose\<close>,
  \<^verbatim>\<open>localResourceHash\<close>, \<^verbatim>\<open>globalResourceHash\<close> and \<^verbatim>\<open>isSameDependencies\<close>).

  JavaScript objects that the module mutates are kept in an explicit world state:
  the six module-level registries, the \<^verbatim>\<open>Map\<close> objects they point to, the
  execution contexts, the renderer and action collections of the plugin, the
  promises. Calls that leave the module (the device's creation functions,
  \<^verbatim>\<open>destroy\<close>, the logger, the queue) are recorded in logs of the world, so that
  "invoked exactly once" is a statement about those logs.
\<close>

subsection \<open>Values and descriptors\<close>

type_synonym token = nat

text \<open>Plain JavaScript data. An object is the list of its own properties in insertion order.\<close>

datatype jsval =
    JUndefined
  | JNull
  | JBool bool
  | JNum int
  | JStr string
  | JArr "jsval list"
  | JObj "(string \<times> jsval) list"

text \<open>
  A descriptor (\<^verbatim>\<open>GPUObjectDescriptorBase\<close> and its subtypes) is an object. Two
  descriptors are structurally equal when they are the same value here: the same
  properties with the same values, in the same order. (Whether the external hash
  function also disregards the order of properties is not assumed.)
\<close>

type_synonym descriptor = "(string \<times> jsval) list"

text \<open>
  Modelled from the spec: \<^verbatim>\<open>hashed\<close> and the type \<^verbatim>\<open>H<T>\<close> are imported from the
  utilities and are not part of the plugin file. \<^verbatim>\<open>H<T>\<close> is a value carrying an
  \<^verbatim>\<open>instanceId\<close>, the "stable identity token" of the specification; \<^verbatim>\<open>hashed\<close>
  attaches one to the object it is given. Every call of a creation function of the
  device returns a new object, so a resource is identified with its token, a natural
  number taken from a counter of the world.
\<close>

datatype device = Device (deviceInstanceId: token)

datatype resource = Resource (instanceId: token)

definition tokenValue :: "token \<Rightarrow> jsval" where
  "tokenValue t = JNum (int t)"

datatype gkind =
  ShaderModule | Sampler | RenderPipeline | ComputePipeline | BindGroupLayout | PipelineLayout

datatype lkind = BindGroup | Buffer | Texture

datatype resourceKind = Global gkind | Local lkind

subsection \<open>Dependency arrays\<close>

text \<open>
  An element of a dependency array is compared with \<^verbatim>\<open>!==\<close>: a primitive by value,
  an object by reference. Numbers are integers here (no \<^verbatim>\<open>NaN\<close>).
  An array is its reference together with its elements; \<^verbatim>\<open>next === prev\<close> compares
  the references.
\<close>

datatype depval = DUndefined | DNull | DBool bool | DNum int | DStr string | DRef nat

datatype deps = Deps (ref: nat) (elems: "depval list")

text \<open>The \<^verbatim>\<open>for\<close> loop of \<^verbatim>\<open>isSameDependencies\<close>, entered with both lengths equal to \<open>n\<close>.\<close>

function sameFrom :: "nat \<Rightarrow> nat \<Rightarrow> depval list \<Rightarrow> depval list \<Rightarrow> bool \<Rightarrow> bool" where
  "sameFrom i n prev nxt valid =
     (if i < n then (if prev ! i \<noteq> nxt ! i then False else sameFrom (Suc i) n prev nxt valid)
      else valid)"
  by pat_completeness auto
termination
  by (relation "measure (\<lambda>(i, n, prev, nxt, valid). n - i)") auto

declare sameFrom.simps [simp del]

definition isSameDependencies :: "deps option \<Rightarrow> deps option \<Rightarrow> bool" where
  "isSameDependencies prev nxt =
     (if nxt = None \<and> prev = None then True
      else
        let valid = (if prev = None then False else True)
        in (case (nxt, prev) of
              (Some nx, Some pv) \<Rightarrow>
                if ref nx = ref pv then True
                else
                  let n = length (elems pv)
                  in if n \<noteq> length (elems nx) then False
                     else sameFrom 0 n (elems pv) (elems nx) valid
            | _ \<Rightarrow> valid))"

subsection \<open>What the module takes from outside\<close>

text \<open>
  \<^item> \<open>hash\<close> is the \<^verbatim>\<open>object-hash\<close> function applied with a \<^verbatim>\<open>replacer\<close> option;
    it is an arbitrary function of the replacer and the value.
  \<^item> \<open>stringHash\<close> is the \<^verbatim>\<open>string-hash\<close> function.
  \<^item> \<open>deviceAccepts\<close> says whether a creation call of the device returns (or throws).
  \<^item> \<open>objectPrototype\<close> and \<open>arrayPrototype\<close> are the methods of the runtime's
    \<^verbatim>\<open>Object.prototype\<close> and \<^verbatim>\<open>Array.prototype\<close>: for a property name, the
    \<^verbatim>\<open>length\<close> of the function found there, if any (the accessor \<^verbatim>\<open>__proto__\<close>
    is not in the table, the model has it).
  \<^item> \<open>refLength\<close> and \<open>refItem\<close> are the \<^verbatim>\<open>length\<close> property and the indexed
    properties of the objects that elements of dependency arrays refer to, and
    \<open>loopBound\<close> is the number that a \<^verbatim>\<open>length\<close> which is not a number converts
    to in \<^verbatim>\<open>i < n\<close>.
\<close>

record 'fp env =
  hash :: "(jsval \<Rightarrow> jsval) \<Rightarrow> jsval \<Rightarrow> 'fp"
  stringHash :: "string \<Rightarrow> nat"
  deviceAccepts :: "device \<Rightarrow> resourceKind \<Rightarrow> descriptor \<Rightarrow> bool"
  objectPrototype :: "string \<Rightarrow> nat option"
  arrayPrototype :: "string \<Rightarrow> nat option"
  refLength :: "nat \<Rightarrow> depval"
  refItem :: "nat \<Rightarrow> nat \<Rightarrow> depval"
  loopBound :: "depval \<Rightarrow> nat"

text \<open>The tables of a standard runtime.\<close>

definition standardObjectPrototype :: "string \<Rightarrow> nat option" where
  "standardObjectPrototype =
     map_of
       [(''constructor'', 1), (''__defineGetter__'', 2), (''__defineSetter__'', 2),
        (''hasOwnProperty'', 1), (''__lookupGetter__'', 1), (''__lookupSetter__'', 1),
        (''isPrototypeOf'', 1), (''propertyIsEnumerable'', 1), (''toString'', 0),
        (''valueOf'', 0), (''toLocaleString'', 0)]"

definition standardArrayPrototype :: "string \<Rightarrow> nat option" where
  "standardArrayPrototype =
     map_of
       [(''constructor'', 1), (''at'', 1), (''concat'', 1), (''copyWithin'', 2),
        (''entries'', 0), (''every'', 1), (''fill'', 1), (''filter'', 1), (''find'', 1),
        (''findIndex'', 1), (''findLast'', 1), (''findLastIndex'', 1), (''flat'', 0),
        (''flatMap'', 1), (''forEach'', 1), (''includes'', 1), (''indexOf'', 1),
        (''join'', 1), (''keys'', 0), (''lastIndexOf'', 1), (''map'', 1), (''pop'', 0),
        (''push'', 1), (''reduce'', 1), (''reduceRight'', 1), (''reverse'', 0),
        (''shift'', 0), (''slice'', 2), (''some'', 1), (''sort'', 1), (''splice'', 2),
        (''toLocaleString'', 0), (''toReversed'', 0), (''toSorted'', 1), (''toSpliced'', 2),
        (''toString'', 0), (''unshift'', 1), (''values'', 0), (''with'', 2)]"

subsection \<open>Plain objects used as tables\<close>

text \<open>
  \<^verbatim>\<open>ctx.frameDeps\<close> and \<^verbatim>\<open>ctx.queueEffectsDeps\<close> are plain objects (\<^verbatim>\<open>{}\<close>) read
  with \<^verbatim>\<open>obj[key]\<close> and written with \<^verbatim>\<open>obj[key] = deps\<close>. Such an object has its
  own properties, which the module writes and which are dependency arrays, and a
  prototype: \<^verbatim>\<open>Object.prototype\<close>, until an assignment to the key \<^verbatim>\<open>__proto__\<close>
  (an accessor of \<^verbatim>\<open>Object.prototype\<close>) makes the assigned array the prototype.
\<close>

record plainObject =
  own :: "(string \<times> deps) list"
  proto :: "deps option"

definition emptyObject :: plainObject where
  "emptyObject = \<lparr>own = [], proto = None\<rparr>"

text \<open>
  What a property read returns: an array whose elements are known, any other value
  that an element of an array can be, a built-in function (its name and its
  \<^verbatim>\<open>length\<close>), or \<^verbatim>\<open>Object.prototype\<close> itself.
\<close>

datatype found =
    FArray deps
  | FValue depval
  | FFunction string nat
  | FObjectPrototype

text \<open>The decimal numeral of a number: the property name of an array index.\<close>

function decimal :: "nat \<Rightarrow> string" where
  "decimal n =
     (if n < 10 then [''0123456789'' ! n]
      else decimal (n div 10) @ [''0123456789'' ! (n mod 10)])"
  by pat_completeness auto
termination
  by (relation "measure id") auto

declare decimal.simps [simp del]

definition arrayIndex :: "string \<Rightarrow> nat \<Rightarrow> nat option" where
  "arrayIndex key n = find (\<lambda>i. decimal i = key) [0..<n]"

text \<open>A property that is not an own property, looked up along the prototype chain.\<close>

definition fromObjectPrototype :: "'fp env \<Rightarrow> string \<Rightarrow> found" where
  "fromObjectPrototype env key =
     (case objectPrototype env key of
        Some arity \<Rightarrow> FFunction (''Object.prototype.'' @ key) arity
      | None \<Rightarrow> FValue DUndefined)"

definition fromArray :: "'fp env \<Rightarrow> deps \<Rightarrow> string \<Rightarrow> found" where
  "fromArray env d key =
     (if key = ''length'' then FValue (DNum (int (length (elems d))))
      else
        case arrayIndex key (length (elems d)) of
          Some i \<Rightarrow> FValue (elems d ! i)
        | None \<Rightarrow>
            (case arrayPrototype env key of
               Some arity \<Rightarrow> FFunction (''Array.prototype.'' @ key) arity
             | None \<Rightarrow> fromObjectPrototype env key))"

definition inherited :: "'fp env \<Rightarrow> plainObject \<Rightarrow> string \<Rightarrow> found" where
  "inherited env obj key =
     (if key = ''__proto__''
      then (case proto obj of None \<Rightarrow> FObjectPrototype | Some d \<Rightarrow> FArray d)
      else (case proto obj of
              None \<Rightarrow> fromObjectPrototype env key
            | Some d \<Rightarrow> fromArray env d key))"

text \<open>\<^verbatim>\<open>obj[key]\<close>\<close>

definition getProp :: "'fp env \<Rightarrow> plainObject \<Rightarrow> string \<Rightarrow> found" where
  "getProp env obj key =
     (case map_of (own obj) key of
        Some d \<Rightarrow> FArray d
      | None \<Rightarrow> inherited env obj key)"

text \<open>
  \<^verbatim>\<open>obj[key] = deps\<close>: at the key \<^verbatim>\<open>__proto__\<close>, unless the object has an own
  property of that name, the setter inherited from \<^verbatim>\<open>Object.prototype\<close> makes the
  array the prototype; any other key becomes or stays an own property (the inherited
  data properties are writable: no array is frozen).
\<close>

definition setProp :: "plainObject \<Rightarrow> string \<Rightarrow> deps \<Rightarrow> plainObject" where
  "setProp obj key d =
     (if key = ''__proto__'' \<and> map_of (own obj) key = None then obj\<lparr>proto := Some d\<rparr>
      else obj\<lparr>own := AList.update key d (own obj)\<rparr>)"

subsection \<open>The comparison on whatever a property read returns\<close>

text \<open>
  \<open>isSameDependencies\<close> above is the function on the values of its declared
  parameter types. \<open>exec\<close> passes it what \<^verbatim>\<open>obj[key]\<close> returned; the same function
  text on such values is \<open>isSameDependenciesUntyped\<close>. On arrays and \<^verbatim>\<open>undefined\<close>
  the two agree (\<open>isSameDependenciesUntyped_typed\<close>).
\<close>

text \<open>Whether \<^verbatim>\<open>!v\<close> is false, for an element and for a value read.\<close>

fun truthy :: "depval \<Rightarrow> bool" where
  "truthy DUndefined = False"
| "truthy DNull = False"
| "truthy (DBool b) = b"
| "truthy (DNum k) = (k \<noteq> 0)"
| "truthy (DStr str) = (str \<noteq> [])"
| "truthy (DRef r) = True"

fun truthyFound :: "found \<Rightarrow> bool" where
  "truthyFound (FValue v) = truthy v"
| "truthyFound (FArray d) = True"
| "truthyFound (FFunction name arity) = True"
| "truthyFound FObjectPrototype = True"

text \<open>
  \<^verbatim>\<open>a === b\<close>. An element \<open>DRef r\<close> with the reference of an array is that array;
  built-in objects are not elements of arrays.
\<close>

fun identical :: "found \<Rightarrow> found \<Rightarrow> bool" where
  "identical (FArray a) (FArray b) = (ref a = ref b)"
| "identical (FArray a) (FValue v) = (v = DRef (ref a))"
| "identical (FValue v) (FArray a) = (v = DRef (ref a))"
| "identical (FValue v) (FValue w) = (v = w)"
| "identical (FFunction f m) (FFunction g n) = (f = g)"
| "identical FObjectPrototype FObjectPrototype = True"
| "identical a b = False"

text \<open>\<^verbatim>\<open>v.length\<close> and \<^verbatim>\<open>v[i]\<close> of a value that is neither \<^verbatim>\<open>undefined\<close> nor \<^verbatim>\<open>null\<close>.\<close>

fun lengthOf :: "'fp env \<Rightarrow> found \<Rightarrow> depval" where
  "lengthOf env (FArray d) = DNum (int (length (elems d)))"
| "lengthOf env (FFunction name arity) = DNum (int arity)"
| "lengthOf env FObjectPrototype = DUndefined"
| "lengthOf env (FValue (DStr str)) = DNum (int (length str))"
| "lengthOf env (FValue (DRef r)) = refLength env r"
| "lengthOf env (FValue v) = DUndefined"

fun itemOf :: "'fp env \<Rightarrow> found \<Rightarrow> nat \<Rightarrow> depval" where
  "itemOf env (FArray d) i = (if i < length (elems d) then elems d ! i else DUndefined)"
| "itemOf env (FFunction name arity) i = DUndefined"
| "itemOf env FObjectPrototype i = DUndefined"
| "itemOf env (FValue (DStr str)) i = (if i < length str then DStr [str ! i] else DUndefined)"
| "itemOf env (FValue (DRef r)) i = refItem env r i"
| "itemOf env (FValue v) i = DUndefined"

definition isUndefined :: "found \<Rightarrow> bool" where
  "isUndefined v \<longleftrightarrow> v = FValue DUndefined"

definition nullish :: "found \<Rightarrow> bool" where
  "nullish v \<longleftrightarrow> v = FValue DUndefined \<or> v = FValue DNull"

text \<open>The bound of the loop \<^verbatim>\<open>i < n\<close>.\<close>

definition bound :: "'fp env \<Rightarrow> depval \<Rightarrow> nat" where
  "bound env n = (case n of DNum k \<Rightarrow> nat k | other \<Rightarrow> loopBound env other)"

function sameFromUntyped ::
  "'fp env \<Rightarrow> nat \<Rightarrow> nat \<Rightarrow> found \<Rightarrow> found \<Rightarrow> bool \<Rightarrow> bool" where
  "sameFromUntyped env i n prev nxt valid =
     (if i < n
      then (if itemOf env prev i \<noteq> itemOf env nxt i then False
            else sameFromUntyped env (Suc i) n prev nxt valid)
      else valid)"
  by pat_completeness auto
termination
  by (relation "measure (\<lambda>(env, i, n, prev, nxt, valid). n - i)") auto

declare sameFromUntyped.simps [simp del]

definition isSameDependenciesUntyped :: "'fp env \<Rightarrow> found \<Rightarrow> found \<Rightarrow> bool" where
  "isSameDependenciesUntyped env prev nxt =
     (if isUndefined nxt \<and> isUndefined prev then True
      else
        let valid = (if isUndefined prev then False else True)
        in if \<not> nullish nxt \<and> \<not> nullish prev
           then
             if identical nxt prev then True
             else
               let n = (if truthy (lengthOf env prev) then lengthOf env prev else DNum 0)
               in if n \<noteq> lengthOf env nxt then False
                  else sameFromUntyped env 0 (bound env n) prev nxt valid
           else valid)"


subsection \<open>Fingerprints\<close>

text \<open>
  The replacer handed to \<^verbatim>\<open>hash\<close> by both fingerprint functions:
  \<^verbatim>\<open>value && typeof value === "object" && "instanceId" in value\<close>
  holds of objects with an \<^verbatim>\<open>instanceId\<close> property (arrays have none).
\<close>

definition replacer :: "jsval \<Rightarrow> jsval" where
  "replacer v =
     (case v of
        JObj fs \<Rightarrow> (case map_of fs ''instanceId'' of Some i \<Rightarrow> i | None \<Rightarrow> v)
      | _ \<Rightarrow> v)"

text \<open>
  \<^verbatim>\<open>Object.assign(desc, { owningDevice: owner.instanceId })\<close> writes the property into
  \<^verbatim>\<open>desc\<close> itself and returns \<^verbatim>\<open>desc\<close>. The function therefore returns the
  fingerprint together with the descriptor object as the call leaves it.
\<close>

definition localResourceHash :: "'fp env \<Rightarrow> descriptor \<Rightarrow> device \<Rightarrow> 'fp \<times> descriptor" where
  "localResourceHash env desc owner =
     (let desc' = AList.update ''owningDevice'' (tokenValue (deviceInstanceId owner)) desc
      in (hash env replacer (JObj desc'), desc'))"

definition globalResourceHash :: "'fp env \<Rightarrow> descriptor \<Rightarrow> 'fp \<times> descriptor" where
  "globalResourceHash env desc = (hash env replacer (JObj desc), desc)"

subsection \<open>Plugin calls, results, contexts\<close>

datatype fkind = Once | Loop

record frameCallback =
  valid :: bool
  callback :: nat
  enabled :: bool
  kind :: fkind

text \<open>
  What calling an action does: it throws before returning a promise, or it returns a
  promise that is fulfilled, rejected, or never settled. (An \<^verbatim>\<open>async\<close> function
  that throws returns a rejected promise.)
\<close>

datatype action =
    Throws jsval
  | ReturnsFulfilled jsval
  | ReturnsRejected jsval
  | ReturnsPending

datatype call =
    CreateShaderModule descriptor
  | CreateRenderPipeline descriptor
  | CreateComputePipeline descriptor
  | CreateBindGroupLayout descriptor
  | CreatePipelineLayout descriptor
  | CreateBuffer descriptor
  | CreateTexture descriptor
  | CreateBindGroup descriptor
  | CreateSampler descriptor
  | PushFrame nat "deps option"
  | Action action
  | QueueEffect nat deps
  | UnknownCall

datatype error = BackendError | UnknownCallError

datatype result =
    Res resource
  | Frame frameCallback
  | Thunk action
  | Undefined

text \<open>
  The context object. \<^verbatim>\<open>frameDeps\<close> and \<^verbatim>\<open>queueEffectsDeps\<close> are plain objects
  read and written at the joined call site; the three caches are \<^verbatim>\<open>Map\<close>s, whose
  entries stay in insertion order. Every field is optional. (\<^verbatim>\<open>calls\<close> is set to
  \<^verbatim>\<open>{}\<close> and never read or written.)
\<close>

record 'fp ctx =
  calls :: "(string \<times> jsval) list option"
  frameDeps :: "plainObject option"
  buffers :: "('fp \<times> resource) list option"
  bindGroups :: "('fp \<times> resource) list option"
  textures :: "('fp \<times> resource) list option"
  queueEffectsDeps :: "plainObject option"

datatype logEntry =
    Cleared gkind nat token
  | CreatedGlobal gkind jsval token token
  | CreatedLocal lkind jsval token nat
  | RanQueueEffect nat

datatype settlement = Pending | Fulfilled jsval | Rejected jsval

subsection \<open>The world\<close>

text \<open>
  \<^item> \<open>CACHE k\<close> is the module-level registry of kind \<open>k\<close> (\<^verbatim>\<open>SHADER_CACHE\<close>,
    \<^verbatim>\<open>SAMPLER_CACHE\<close>, ...): a \<^verbatim>\<open>Map\<close> from devices to \<^verbatim>\<open>Map\<close> objects, which
    are references into \<open>maps\<close>.
  \<^item> \<open>lostResolved\<close> lists the devices whose \<^verbatim>\<open>lost\<close> promise has resolved;
    \<open>reactions\<close> are the callbacks registered with \<^verbatim>\<open>device.lost.then\<close> on a
    pending promise; \<open>microtasks\<close> are the callbacks queued to run.
  \<^item> \<open>contexts\<close> holds the context objects, by reference.
  \<^item> \<open>rendererContext\<close> and \<open>actionContext\<close> are the collections the plugin was
    created with; \<open>futures\<close> holds the promises made for actions. The device the
    plugin was created with is an argument of \<open>exec\<close>, so that plugins of several
    devices share the registries, as they do in the module.
  \<^item> \<open>creations\<close>, \<open>destroyed\<close>, \<open>queueCalls\<close>, \<open>logs\<close>, \<open>settleCalls\<close> record the
    calls that leave the module: the creation functions of the device,
    \<^verbatim>\<open>destroy\<close>, the effects run on the queue, the logger, \<^verbatim>\<open>resolve\<close> and
    \<^verbatim>\<open>reject\<close>.
\<close>

record 'fp world =
  CACHE :: "gkind \<Rightarrow> (device \<times> nat) list"
  maps :: "nat \<Rightarrow> ('fp \<times> resource) list"
  nextMap :: nat
  lostResolved :: "device list"
  reactions :: "(device \<times> gkind \<times> nat) list"
  microtasks :: "(device \<times> gkind \<times> nat) list"
  logs :: "logEntry list"
  nextId :: token
  creations :: "(device \<times> resourceKind \<times> descriptor) list"
  destroyed :: "resource list"
  contexts :: "nat \<Rightarrow> 'fp ctx"
  rendererContext :: "(string \<times> frameCallback) list"
  actionContext :: "(action \<times> nat) list"
  futures :: "nat \<Rightarrow> settlement"
  nextFuture :: nat
  settleCalls :: "(nat \<times> settlement) list"
  queueCalls :: "(nat \<times> device) list"

subsection \<open>The device\<close>

text \<open>
  \<^verbatim>\<open>hashed(device.createX(descriptor))\<close>: the call is recorded; when the device
  throws nothing else happens, otherwise the new object gets a fresh token.
\<close>

definition deviceCreate ::
  "'fp env \<Rightarrow> device \<Rightarrow> resourceKind \<Rightarrow> descriptor \<Rightarrow> 'fp world \<Rightarrow> (error + resource) \<times> 'fp world" where
  "deviceCreate env dev k desc s =
     (let s1 = s\<lparr>creations := creations s @ [(dev, k, desc)]\<rparr>
      in if deviceAccepts env dev k desc
         then (Inr (Resource (nextId s1)), s1\<lparr>nextId := Suc (nextId s1)\<rparr>)
         else (Inl BackendError, s1))"

text \<open>
  \<^verbatim>\<open>device.lost.then(handler)\<close>: a reaction of a pending promise, a queued job of a
  resolved one.
\<close>

definition subscribeLost :: "device \<Rightarrow> gkind \<times> nat \<Rightarrow> 'fp world \<Rightarrow> 'fp world" where
  "subscribeLost dev job s =
     (if dev \<in> set (lostResolved s)
      then s\<lparr>microtasks := microtasks s @ [(dev, job)]\<rparr>
      else s\<lparr>reactions := reactions s @ [(dev, job)]\<rparr>)"

text \<open>
  The handler of one subscription:
  \<^verbatim>\<open>CACHE.delete(device); const size = newCache.size; newCache.clear(); log(...)\<close>.
\<close>

definition onLost :: "device \<times> gkind \<times> nat \<Rightarrow> 'fp world \<Rightarrow> 'fp world" where
  "onLost job s =
     (case job of (dev, k, newCache) \<Rightarrow>
        let s1 = s\<lparr>CACHE := (CACHE s)(k := AList.delete dev (CACHE s k))\<rparr>;
            size = length (maps s1 newCache);
            s2 = s1\<lparr>maps := (maps s1)(newCache := [])\<rparr>
        in s2\<lparr>logs := logs s2 @ [Cleared k size (deviceInstanceId dev)]\<rparr>)"

text \<open>The promise resolves (once): its reactions are queued, in the order of registration.\<close>

definition resolveLost :: "device \<Rightarrow> 'fp world \<Rightarrow> 'fp world" where
  "resolveLost dev s =
     (if dev \<in> set (lostResolved s) then s
      else s\<lparr>lostResolved := lostResolved s @ [dev],
             microtasks := microtasks s @ filter (\<lambda>j. fst j = dev) (reactions s),
             reactions := filter (\<lambda>j. fst j \<noteq> dev) (reactions s)\<rparr>)"

text \<open>The microtask checkpoint: the queued handlers run in order; none queues another.\<close>

definition runMicrotasks :: "'fp world \<Rightarrow> 'fp world" where
  "runMicrotasks s = fold onLost (microtasks s) (s\<lparr>microtasks := []\<rparr>)"

text \<open>The lost signal of a device fires and its handlers have run.\<close>

definition deviceLost :: "device \<Rightarrow> 'fp world \<Rightarrow> 'fp world" where
  "deviceLost dev s = runMicrotasks (resolveLost dev s)"

subsection \<open>The dispatcher\<close>

text \<open>\<^verbatim>\<open>callSite.join("@")\<close>\<close>

fun join :: "string list \<Rightarrow> string \<Rightarrow> string" where
  "join [] sep = []"
| "join [x] sep = x"
| "join (x # y # ys) sep = x @ sep @ join (y # ys) sep"

text \<open>\<^verbatim>\<open>descriptor.label ?? "<unnamed>"\<close>\<close>

definition labelOf :: "descriptor \<Rightarrow> jsval" where
  "labelOf desc =
     (case map_of desc ''label'' of
        None \<Rightarrow> JStr ''<unnamed>''
      | Some JUndefined \<Rightarrow> JStr ''<unnamed>''
      | Some JNull \<Rightarrow> JStr ''<unnamed>''
      | Some v \<Rightarrow> v)"

text \<open>The six \<^verbatim>\<open>if (!ctx.x) ctx.x = ...\<close> statements at the head of \<^verbatim>\<open>exec\<close>.\<close>

definition initContext :: "'fp ctx \<Rightarrow> 'fp ctx" where
  "initContext c0 =
     (let c1 = (if calls c0 = None then c0\<lparr>calls := Some []\<rparr> else c0);
          c2 = (if frameDeps c1 = None then c1\<lparr>frameDeps := Some emptyObject\<rparr> else c1);
          c3 = (if buffers c2 = None then c2\<lparr>buffers := Some []\<rparr> else c2);
          c4 = (if textures c3 = None then c3\<lparr>textures := Some []\<rparr> else c3);
          c5 = (if queueEffectsDeps c4 = None then c4\<lparr>queueEffectsDeps := Some emptyObject\<rparr> else c4);
          c6 = (if bindGroups c5 = None then c5\<lparr>bindGroups := Some []\<rparr> else c5)
      in c6)"

text \<open>An optional field of the context, read after the head of \<^verbatim>\<open>exec\<close> has set it.\<close>

definition entries :: "('k \<times> 'v) list option \<Rightarrow> ('k \<times> 'v) list" where
  "entries m = (case m of None \<Rightarrow> [] | Some al \<Rightarrow> al)"

definition objectOf :: "plainObject option \<Rightarrow> plainObject" where
  "objectOf m = (case m of None \<Rightarrow> emptyObject | Some obj \<Rightarrow> obj)"

text \<open>
  The first lines of each global branch:
  \<^verbatim>\<open>let cache = CACHE.get(device); if (!cache) { ... CACHE.set(device, cache); device.lost.then(...) }\<close>.
\<close>

definition getCache :: "gkind \<Rightarrow> device \<Rightarrow> 'fp world \<Rightarrow> nat \<times> 'fp world" where
  "getCache k dev s =
     (case map_of (CACHE s k) dev of
        Some cache \<Rightarrow> (cache, s)
      | None \<Rightarrow>
          let newCache = nextMap s;
              s1 = s\<lparr>nextMap := Suc newCache, maps := (maps s)(newCache := [])\<rparr>;
              s2 = s1\<lparr>CACHE := (CACHE s1)(k := AList.update dev newCache (CACHE s1 k))\<rparr>
          in (newCache, subscribeLost dev (k, newCache) s2))"

text \<open>
  The six global branches of \<^verbatim>\<open>exec\<close> are the same text up to the registry, the
  creation function of the device and the log message; \<open>execGlobal k\<close> is that text.
\<close>

definition execGlobal ::
  "'fp env \<Rightarrow> device \<Rightarrow> gkind \<Rightarrow> descriptor \<Rightarrow> 'fp world \<Rightarrow> (error + result) \<times> 'fp world" where
  "execGlobal env dev k desc s =
     (case getCache k dev s of (cache, s1) \<Rightarrow>
        let resourceKey = fst (globalResourceHash env desc)
        in case map_of (maps s1 cache) resourceKey of
             Some fromCache \<Rightarrow> (Inr (Res fromCache), s1)
           | None \<Rightarrow>
               (case deviceCreate env dev (Global k) desc s1 of
                  (Inl e, s2) \<Rightarrow> (Inl e, s2)
                | (Inr r, s2) \<Rightarrow>
                    (Inr (Res r),
                     s2\<lparr>maps := (maps s2)(cache := AList.update resourceKey r (maps s2 cache)),
                        logs := logs s2 @
                          [CreatedGlobal k (labelOf desc) (instanceId r) (deviceInstanceId dev)]\<rparr>)))"

text \<open>The local cache of a kind in a context, and its replacement.\<close>

definition localCache :: "lkind \<Rightarrow> 'fp ctx \<Rightarrow> ('fp \<times> resource) list" where
  "localCache k c =
     (case k of
        BindGroup \<Rightarrow> entries (bindGroups c)
      | Buffer \<Rightarrow> entries (buffers c)
      | Texture \<Rightarrow> entries (textures c))"

definition setLocalCache :: "lkind \<Rightarrow> ('fp \<times> resource) list \<Rightarrow> 'fp ctx \<Rightarrow> 'fp ctx" where
  "setLocalCache k m c =
     (case k of
        BindGroup \<Rightarrow> c\<lparr>bindGroups := Some m\<rparr>
      | Buffer \<Rightarrow> c\<lparr>buffers := Some m\<rparr>
      | Texture \<Rightarrow> c\<lparr>textures := Some m\<rparr>)"

text \<open>
  The three local branches. The descriptor handed to the device is the object that
  \<^verbatim>\<open>localResourceHash\<close> has just written to.
\<close>

definition execLocal ::
  "'fp env \<Rightarrow> device \<Rightarrow> lkind \<Rightarrow> descriptor \<Rightarrow> nat \<Rightarrow> nat \<Rightarrow> 'fp world
     \<Rightarrow> (error + result) \<times> 'fp world" where
  "execLocal env dev k desc fiberHash cid s =
     (case localResourceHash env desc dev of (key, desc') \<Rightarrow>
        (case map_of (localCache k (contexts s cid)) key of
           Some existing \<Rightarrow> (Inr (Res existing), s)
         | None \<Rightarrow>
             (case deviceCreate env dev (Local k) desc' s of
                (Inl e, s1) \<Rightarrow> (Inl e, s1)
              | (Inr r, s1) \<Rightarrow>
                  (Inr (Res r),
                   s1\<lparr>contexts := (contexts s1)
                         (cid := setLocalCache k
                                   (AList.update key r (localCache k (contexts s1 cid)))
                                   (contexts s1 cid)),
                      logs := logs s1 @
                        [CreatedLocal k (labelOf desc') (instanceId r) fiberHash]\<rparr>))))"

definition execQueueEffect ::
  "'fp env \<Rightarrow> device \<Rightarrow> nat \<Rightarrow> deps \<Rightarrow> string \<Rightarrow> nat \<Rightarrow> nat \<Rightarrow> 'fp world
     \<Rightarrow> (error + result) \<times> 'fp world" where
  "execQueueEffect env dev queueEffect ds callKey fiberHash cid s =
     (let cached = getProp env (objectOf (queueEffectsDeps (contexts s cid))) callKey
      in if \<not> isSameDependenciesUntyped env cached (FArray ds)
         then
           (Inr Undefined,
            s\<lparr>contexts := (contexts s)
                 (cid := (contexts s cid)
                    \<lparr>queueEffectsDeps :=
                       Some (setProp (objectOf (queueEffectsDeps (contexts s cid))) callKey ds)\<rparr>),
              logs := logs s @ [RanQueueEffect fiberHash],
              queueCalls := queueCalls s @ [(queueEffect, dev)]\<rparr>)
         else (Inr Undefined, s))"

definition execPushFrame ::
  "'fp env \<Rightarrow> nat \<Rightarrow> deps option \<Rightarrow> string \<Rightarrow> nat \<Rightarrow> 'fp world
     \<Rightarrow> (error + result) \<times> 'fp world" where
  "execPushFrame env pushFrame ds callKey cid s =
     (case ds of
        Some d \<Rightarrow>
          let isFirstRender =
                (\<not> truthyFound (getProp env (objectOf (frameDeps (contexts s cid))) callKey));
              lastDeps = getProp env (objectOf (frameDeps (contexts s cid))) callKey;
              areSame = isSameDependenciesUntyped env (FArray d) lastDeps;
              enabled = (\<not> areSame \<or> isFirstRender);
              frame = \<lparr>valid = True, callback = pushFrame, enabled = enabled, kind = Once\<rparr>
          in (Inr (Frame frame),
              s\<lparr>contexts := (contexts s)
                   (cid := (contexts s cid)
                      \<lparr>frameDeps :=
                         Some (setProp (objectOf (frameDeps (contexts s cid))) callKey d)\<rparr>),
                rendererContext := AList.update callKey frame (rendererContext s)\<rparr>)
      | None \<Rightarrow>
          let frame = \<lparr>valid = True, callback = pushFrame, enabled = True, kind = Loop\<rparr>
          in (Inr (Frame frame),
              s\<lparr>rendererContext := AList.update callKey frame (rendererContext s)\<rparr>))"

text \<open>
  \<^verbatim>\<open>exec({ call }, callSite, ctx)\<close> of the plugin made for device \<open>dev\<close>; the context
  is the object at \<open>cid\<close>. A \<^verbatim>\<open>throw\<close> is the result \<open>Inl\<close>, with the world as the
  statements before it have left it.
\<close>

definition exec ::
  "'fp env \<Rightarrow> device \<Rightarrow> call \<Rightarrow> string list \<Rightarrow> nat \<Rightarrow> 'fp world \<Rightarrow> (error + result) \<times> 'fp world" where
  "exec env dev cl callSite cid s =
     (let callKey = join callSite ''@'';
          fiberHash = stringHash env callKey;
          s0 = s\<lparr>contexts := (contexts s)(cid := initContext (contexts s cid))\<rparr>
      in case cl of
           CreateShaderModule d \<Rightarrow> execGlobal env dev ShaderModule d s0
         | CreateSampler d \<Rightarrow> execGlobal env dev Sampler d s0
         | CreateRenderPipeline d \<Rightarrow> execGlobal env dev RenderPipeline d s0
         | CreateComputePipeline d \<Rightarrow> execGlobal env dev ComputePipeline d s0
         | CreateBindGroupLayout d \<Rightarrow> execGlobal env dev BindGroupLayout d s0
         | CreatePipelineLayout d \<Rightarrow> execGlobal env dev PipelineLayout d s0
         | CreateBindGroup d \<Rightarrow> execLocal env dev BindGroup d fiberHash cid s0
         | CreateBuffer d \<Rightarrow> execLocal env dev Buffer d fiberHash cid s0
         | CreateTexture d \<Rightarrow> execLocal env dev Texture d fiberHash cid s0
         | QueueEffect q ds \<Rightarrow> execQueueEffect env dev q ds callKey fiberHash cid s0
         | Action a \<Rightarrow> (Inr (Thunk a), s0)
         | PushFrame f ds \<Rightarrow> execPushFrame env f ds callKey cid s0
         | UnknownCall \<Rightarrow> (Inl UnknownCallError, s0))"

text \<open>The request of a resource of a given kind.\<close>

definition createGlobal :: "gkind \<Rightarrow> descriptor \<Rightarrow> call" where
  "createGlobal k d =
     (case k of
        ShaderModule \<Rightarrow> CreateShaderModule d
      | Sampler \<Rightarrow> CreateSampler d
      | RenderPipeline \<Rightarrow> CreateRenderPipeline d
      | ComputePipeline \<Rightarrow> CreateComputePipeline d
      | BindGroupLayout \<Rightarrow> CreateBindGroupLayout d
      | PipelineLayout \<Rightarrow> CreatePipelineLayout d)"

definition createLocal :: "lkind \<Rightarrow> descriptor \<Rightarrow> call" where
  "createLocal k d =
     (case k of
        BindGroup \<Rightarrow> CreateBindGroup d
      | Buffer \<Rightarrow> CreateBuffer d
      | Texture \<Rightarrow> CreateTexture d)"

subsection \<open>Disposal\<close>

text \<open>\<^verbatim>\<open>for (const x of map.values()) x.destroy()\<close>\<close>

definition destroyAll :: "resource list \<Rightarrow> 'fp world \<Rightarrow> 'fp world" where
  "destroyAll rs s = fold (\<lambda>r t. t\<lparr>destroyed := destroyed t @ [r]\<rparr>) rs s"

definition dispose :: "nat \<Rightarrow> 'fp world \<Rightarrow> 'fp world" where
  "dispose cid s =
     (let s1 = (case textures (contexts s cid) of
                  Some m \<Rightarrow> destroyAll (map snd m) s
                | None \<Rightarrow> s);
          s2 = (case buffers (contexts s1 cid) of
                  Some m \<Rightarrow> destroyAll (map snd m) s1
                | None \<Rightarrow> s1)
      in s2)"

subsection \<open>Actions\<close>

text \<open>
  The function returned by the action branch, called: it makes the promise
  \<^verbatim>\<open>token\<close>, adds the wrapper to \<^verbatim>\<open>actionContext\<close> and returns the promise.
\<close>

definition invokeThunk :: "action \<Rightarrow> 'fp world \<Rightarrow> nat \<times> 'fp world" where
  "invokeThunk a s =
     (let token = nextFuture s
      in (token,
          s\<lparr>nextFuture := Suc token,
            futures := (futures s)(token := Pending),
            actionContext := actionContext s @ [(a, token)]\<rparr>))"

text \<open>\<^verbatim>\<open>promise.resolve(v)\<close> and \<^verbatim>\<open>promise.reject(e)\<close>: only a pending promise changes.\<close>

definition settle :: "nat \<Rightarrow> settlement \<Rightarrow> 'fp world \<Rightarrow> 'fp world" where
  "settle token outcome s =
     (let s1 = s\<lparr>settleCalls := settleCalls s @ [(token, outcome)]\<rparr>
      in if futures s1 token = Pending
         then s1\<lparr>futures := (futures s1)(token := outcome)\<rparr>
         else s1)"

text \<open>
  The wrapper \<^verbatim>\<open>async (bag) => call.action(bag).then(promise.resolve).catch(promise.reject)\<close>
  called by the frame driver. The result is the settlement of the promise that the
  wrapper itself returns.
\<close>

definition runQueued :: "action \<times> nat \<Rightarrow> 'fp world \<Rightarrow> settlement \<times> 'fp world" where
  "runQueued entry s =
     (case entry of (a, token) \<Rightarrow>
        (case a of
           Throws e \<Rightarrow> (Rejected e, s)
         | ReturnsFulfilled v \<Rightarrow> (Fulfilled JUndefined, settle token (Fulfilled v) s)
         | ReturnsRejected e \<Rightarrow> (Fulfilled JUndefined, settle token (Rejected e) s)
         | ReturnsPending \<Rightarrow> (Pending, s)))"

subsection \<open>The sameness relation as the specification words it\<close>

text \<open>
  Written from the sentence of the specification, for comparison with
  \<open>isSameDependencies\<close>: the two are the identical sequence object (two absent
  sequences count as identical), or both are defined, of equal length, with pairwise
  identical elements in order.
\<close>

definition sameBySpec :: "deps option \<Rightarrow> deps option \<Rightarrow> bool" where
  "sameBySpec prev nxt =
     (case (prev, nxt) of
        (None, None) \<Rightarrow> True
      | (Some p, Some n) \<Rightarrow>
          ref p = ref n \<or>
          (length (elems p) = length (elems n) \<and>
           (\<forall>i < length (elems p). elems p ! i = elems n ! i))
      | _ \<Rightarrow> False)"

subsection \<open>Observations and a starting state\<close>



text \<open>
  The entries of the global cache of a kind and a device (none when no cache is
  registered for the device).
\<close>

definition cached :: "'fp world \<Rightarrow> gkind \<Rightarrow> device \<Rightarrow> ('fp \<times> resource) list" where
  "cached s k dev = (case map_of (CACHE s k) dev of None \<Rightarrow> [] | Some c \<Rightarrow> maps s c)"

text \<open>
  The module as loaded: empty registries, no promise resolved, contexts that are
  fresh objects. And an environment of a standard runtime whose fingerprint is the
  replaced value itself and whose device accepts every descriptor; the objects that
  elements of dependency arrays refer to have no \<^verbatim>\<open>length\<close> and no indexed
  properties there.
\<close>

definition newContext :: "'fp ctx" where
  "newContext =
     \<lparr>calls = None, frameDeps = None, buffers = None, bindGroups = None, textures = None,
      queueEffectsDeps = None\<rparr>"

definition initialWorld :: "'fp world" where
  "initialWorld =
     \<lparr>CACHE = (\<lambda>k. []), maps = (\<lambda>c. []), nextMap = 0, lostResolved = [], reactions = [],
      microtasks = [], logs = [], nextId = 0, creations = [], destroyed = [],
      contexts = (\<lambda>c. newContext), rendererContext = [], actionContext = [],
      futures = (\<lambda>t. Pending), nextFuture = 0, settleCalls = [], queueCalls = []\<rparr>"

definition plainEnv :: "jsval env" where
  "plainEnv =
     \<lparr>hash = (\<lambda>r v. r v), stringHash = length, deviceAccepts = (\<lambda>dev k d. True),
      objectPrototype = standardObjectPrototype, arrayPrototype = standardArrayPrototype,
      refLength = (\<lambda>r. DUndefined), refItem = (\<lambda>r i. DUndefined), loopBound = (\<lambda>v. 0)\<rparr>"

definition rejectingEnv :: "jsval env" where
  "rejectingEnv =
     \<lparr>hash = (\<lambda>r v. r v), stringHash = length, deviceAccepts = (\<lambda>dev k d. False),
      objectPrototype = standardObjectPrototype, arrayPrototype = standardArrayPrototype,
      refLength = (\<lambda>r. DUndefined), refItem = (\<lambda>r i. DUndefined), loopBound = (\<lambda>v. 0)\<rparr>"

subsection \<open>Histories and what they maintain\<close>

text \<open>
  What can happen to the world: a request reaches \<open>exec\<close>, a context is disposed,
  the lost signal of a device fires (and the handlers run), a microtask checkpoint
  runs the queued handlers, a thunk returned by the action branch is called, the frame
  driver calls a queued wrapper.
\<close>

datatype event =
    Exec device call "string list" nat
  | Dispose nat
  | DeviceLost device
  | Checkpoint
  | InvokeThunk action
  | RunQueued action nat

fun perform :: "'fp env \<Rightarrow> event \<Rightarrow> 'fp world \<Rightarrow> 'fp world" where
  "perform env (Exec dev cl cs cid) s = snd (exec env dev cl cs cid s)"
| "perform env (Dispose cid) s = dispose cid s"
| "perform env (DeviceLost dev) s = deviceLost dev s"
| "perform env Checkpoint s = runMicrotasks s"
| "perform env (InvokeThunk a) s = snd (invokeThunk a s)"
| "perform env (RunQueued a t) s = snd (runQueued (a, t) s)"

definition run :: "'fp env \<Rightarrow> event list \<Rightarrow> 'fp world \<Rightarrow> 'fp world" where
  "run env evs s = fold (perform env) evs s"

text \<open>The log entry of a handler that runs in world \<open>s\<close>.\<close>

definition clearedReport :: "'fp world \<Rightarrow> device \<times> gkind \<times> nat \<Rightarrow> logEntry" where
  "clearedReport s j =
     Cleared (fst (snd j)) (length (maps s (snd (snd j)))) (deviceInstanceId (fst j))"

text \<open>The handlers that have not run yet, and the resources a context holds.\<close>

definition pendingJobs :: "'fp world \<Rightarrow> (device \<times> gkind \<times> nat) list" where
  "pendingJobs s = reactions s @ microtasks s"

definition localResources :: "'fp ctx \<Rightarrow> resource list" where
  "localResources c =
     map snd (entries (textures c)) @ map snd (entries (buffers c)) @
     map snd (entries (bindGroups c))"

text \<open>
  The registries of a world are in order when every registered \<^verbatim>\<open>Map\<close> is an
  allocated object with exactly one handler waiting for it, the handlers of a pending
  promise are its reactions and those of a resolved promise are queued, and every
  cached resource is an object that has been created.
\<close>

definition registriesOk :: "'fp world \<Rightarrow> bool" where
  "registriesOk s \<longleftrightarrow>
     distinct (map (\<lambda>j. snd (snd j)) (pendingJobs s)) \<and>
     (\<forall>j \<in> set (pendingJobs s).
        snd (snd j) < nextMap s \<and> map_of (CACHE s (fst (snd j))) (fst j) = Some (snd (snd j))) \<and>
     (\<forall>j \<in> set (reactions s). fst j \<notin> set (lostResolved s)) \<and>
     (\<forall>j \<in> set (microtasks s). fst j \<in> set (lostResolved s)) \<and>
     (\<forall>k dev c. map_of (CACHE s k) dev = Some c \<longrightarrow> (dev, k, c) \<in> set (pendingJobs s)) \<and>
     (\<forall>c. \<forall>r \<in> snd ` set (maps s c). instanceId r < nextId s)"

text \<open>
  The local caches are in order when the resources of a context are distinct
  objects that have been created, and no object is held by two contexts.
\<close>

definition localsOk :: "'fp world \<Rightarrow> bool" where
  "localsOk s \<longleftrightarrow>
     (\<forall>cid. distinct (localResources (contexts s cid))) \<and>
     (\<forall>cid. \<forall>r \<in> set (localResources (contexts s cid)). instanceId r < nextId s) \<and>
     (\<forall>cid cid'. cid \<noteq> cid' \<longrightarrow>
        set (localResources (contexts s cid)) \<inter> set (localResources (contexts s cid')) = {})"

text \<open>
  A \<^verbatim>\<open>Map\<close> object is retired when it is allocated, empty, and no handler waits
  for it.
\<close>

definition retired :: "nat \<Rightarrow> 'fp world \<Rightarrow> bool" where
  "retired c s \<longleftrightarrow>
     c < nextMap s \<and> maps s c = [] \<and> c \<notin> (\<lambda>j. snd (snd j)) ` set (pendingJobs s)"

text \<open>The \<^verbatim>\<open>destroy\<close> calls that disposing a context makes.\<close>

definition disposeCalls :: "nat \<Rightarrow> 'fp world \<Rightarrow> resource list" where
  "disposeCalls cid s = drop (length (destroyed s)) (destroyed (dispose cid s))"

section \<open>Properties\<close>

text \<open>The definitions that evaluate a history from the module as loaded.\<close>

lemmas eval_defs =
  run_def exec_def execLocal_def execGlobal_def getCache_def subscribeLost_def deviceCreate_def
  localResourceHash_def globalResourceHash_def localCache_def setLocalCache_def initContext_def
  initialWorld_def newContext_def plainEnv_def replacer_def tokenValue_def labelOf_def Let_def

subsection \<open>The comparison of dependency arrays\<close>

lemma sameFrom_iff:
  "sameFrom i n p x v \<longleftrightarrow> (\<forall>j. i \<le> j \<and> j < n \<longrightarrow> p ! j = x ! j) \<and> v"
proof (induction i n p x v rule: sameFrom.induct)
  case (1 i n prev nxt valid)
  show ?case
  proof (cases "i < n")
    case True
    note lt = this
    show ?thesis
    proof (cases "prev ! i = nxt ! i")
      case True
      have "sameFrom i n prev nxt valid = sameFrom (Suc i) n prev nxt valid"
        using lt True by (subst sameFrom.simps) simp
      also have "\<dots> \<longleftrightarrow> (\<forall>j. Suc i \<le> j \<and> j < n \<longrightarrow> prev ! j = nxt ! j) \<and> valid"
        using "1.IH" lt True by simp
      also have "\<dots> \<longleftrightarrow> (\<forall>j. i \<le> j \<and> j < n \<longrightarrow> prev ! j = nxt ! j) \<and> valid"
        using True by (metis Suc_leI le_neq_implies_less Suc_leD)
      finally show ?thesis .
    next
      case False
      have "\<not> sameFrom i n prev nxt valid"
        using lt False by (subst sameFrom.simps) simp
      moreover have "\<not> (\<forall>j. i \<le> j \<and> j < n \<longrightarrow> prev ! j = nxt ! j)"
        using lt False by auto
      ultimately show ?thesis by simp
    qed
  next
    case False
    then show ?thesis by (subst sameFrom.simps) auto
  qed
qed

lemma isSame_Some_Some:
  "isSameDependencies (Some p) (Some n) \<longleftrightarrow> ref n = ref p \<or> elems p = elems n"
  by (auto simp: isSameDependencies_def Let_def sameFrom_iff list_eq_iff_nth_eq)

lemma isSame_None_None: "isSameDependencies None None"
  by (simp add: isSameDependencies_def)

lemma isSame_None_Some: "\<not> isSameDependencies None (Some n)"
  by (simp add: isSameDependencies_def)

lemma isSame_Some_None: "isSameDependencies (Some p) None"
  by (simp add: isSameDependencies_def)

text \<open>
  Claim C5, as stated, at a defined first argument and an absent second one: the
  comparison answers "same" for the array \<open>[1, 2]\<close> and \<^verbatim>\<open>undefined\<close>, which are
  neither the identical object nor both defined.
\<close>

theorem isSameDependencies_defined_undefined:
  "isSameDependencies (Some (Deps 0 [DNum 1, DNum 2])) None \<and>
   \<not> sameBySpec (Some (Deps 0 [DNum 1, DNum 2])) None"
  by (simp add: isSameDependencies_def sameBySpec_def)

text \<open>
  Claim C5, amended: \<open>isSameDependencies prev next\<close> judges the two "same" if and only
  if they are the identical sequence object, or both are defined with equal length and
  pairwise identical elements in order, or \<open>prev\<close> is defined and \<open>next\<close> is absent.
  (The frame branch of \<open>exec\<close> passes the new sequence as \<open>prev\<close> and the recorded
  one as \<open>next\<close>, and adds its own test for the first registration.)
\<close>

theorem isSameDependencies_relation:
  "isSameDependencies prev nxt \<longleftrightarrow> sameBySpec prev nxt \<or> (prev \<noteq> None \<and> nxt = None)"
proof (cases prev)
  case None
  then show ?thesis
    by (cases nxt) (simp_all add: isSame_None_None isSame_None_Some sameBySpec_def)
next
  case (Some p)
  then show ?thesis
    by (cases nxt) (auto simp: isSame_Some_None isSame_Some_Some sameBySpec_def list_eq_iff_nth_eq)
qed

text \<open>
  Claim C5, the amended relation at two distinct arrays \<open>[1, 2]\<close> and \<open>[1, 2]\<close>:
  both sides hold.
\<close>

theorem isSameDependencies_relation_witness:
  "isSameDependencies (Some (Deps 1 [DNum 1, DNum 2])) (Some (Deps 2 [DNum 1, DNum 2])) \<and>
   sameBySpec (Some (Deps 1 [DNum 1, DNum 2])) (Some (Deps 2 [DNum 1, DNum 2]))"
  using isSameDependencies_relation
    [of "Some (Deps 1 [DNum 1, DNum 2])" "Some (Deps 2 [DNum 1, DNum 2])"]
  by (simp add: sameBySpec_def)

subsection \<open>Frame callbacks\<close>

lemma entries_simps [simp]: "entries None = []" "entries (Some al) = al"
  by (simp_all add: entries_def)

lemma objectOf_simps [simp]: "objectOf None = emptyObject" "objectOf (Some obj) = obj"
  by (simp_all add: objectOf_def)

lemma entries_initContext [simp]:
  "objectOf (frameDeps (initContext c)) = objectOf (frameDeps c)"
  "objectOf (queueEffectsDeps (initContext c)) = objectOf (queueEffectsDeps c)"
  "entries (buffers (initContext c)) = entries (buffers c)"
  "entries (textures (initContext c)) = entries (textures c)"
  "entries (bindGroups (initContext c)) = entries (bindGroups c)"
  by (simp_all add: initContext_def Let_def)

lemma sameFromUntyped_iff:
  "sameFromUntyped env i n p x v \<longleftrightarrow>
     (\<forall>j. i \<le> j \<and> j < n \<longrightarrow> itemOf env p j = itemOf env x j) \<and> v"
proof (induction env i n p x v rule: sameFromUntyped.induct)
  case (1 env i n prev nxt valid)
  show ?case
  proof (cases "i < n")
    case True
    note lt = this
    show ?thesis
    proof (cases "itemOf env prev i = itemOf env nxt i")
      case True
      have "sameFromUntyped env i n prev nxt valid = sameFromUntyped env (Suc i) n prev nxt valid"
        using lt True by (subst sameFromUntyped.simps) simp
      also have "\<dots> \<longleftrightarrow>
          (\<forall>j. Suc i \<le> j \<and> j < n \<longrightarrow> itemOf env prev j = itemOf env nxt j) \<and> valid"
        using "1.IH" lt True by simp
      also have "\<dots> \<longleftrightarrow>
          (\<forall>j. i \<le> j \<and> j < n \<longrightarrow> itemOf env prev j = itemOf env nxt j) \<and> valid"
        using True by (metis Suc_leI le_neq_implies_less Suc_leD)
      finally show ?thesis .
    next
      case False
      have "\<not> sameFromUntyped env i n prev nxt valid"
        using lt False by (subst sameFromUntyped.simps) simp
      moreover have "\<not> (\<forall>j. i \<le> j \<and> j < n \<longrightarrow> itemOf env prev j = itemOf env nxt j)"
        using lt False by auto
      ultimately show ?thesis by simp
    qed
  next
    case False
    then show ?thesis by (subst sameFromUntyped.simps) auto
  qed
qed


















text \<open>
  The queue-effect branch reads \<^verbatim>\<open>ctx.queueEffectsDeps\<close> the same way. A queue effect
  with the empty sequence at the call site \<open>toString\<close> is not run, although none ran
  there before; at a call site that the object does not inherit it is run.
\<close>

lemma queueEffect_at_inherited_key:
  "queueCalls (snd (exec plainEnv (Device 0) (QueueEffect 3 (Deps 1 [])) [''toString''] 0
                      (initialWorld :: jsval world))) = [] \<and>
   queueCalls (snd (exec plainEnv (Device 0) (QueueEffect 3 (Deps 1 [])) [''App''] 0
                      (initialWorld :: jsval world))) = [(3, Device 0)]"
proof -
  have inh: "getProp plainEnv (objectOf (queueEffectsDeps (contexts (initialWorld :: jsval world) 0)))
      ''toString'' = FFunction ''Object.prototype.toString'' 0"
    by (simp add: getProp_def inherited_def fromObjectPrototype_def emptyObject_def
        initialWorld_def newContext_def plainEnv_def standardObjectPrototype_def)
  have same: "isSameDependenciesUntyped plainEnv (FFunction ''Object.prototype.toString'' 0)
      (FArray (Deps 1 []))"
    by (simp add: isSameDependenciesUntyped_def isUndefined_def nullish_def Let_def bound_def
        sameFromUntyped_iff)
  have own: "getProp plainEnv (objectOf (queueEffectsDeps (contexts (initialWorld :: jsval world) 0)))
      ''App'' = FValue DUndefined"
    by (simp add: getProp_def inherited_def fromObjectPrototype_def emptyObject_def
        initialWorld_def newContext_def plainEnv_def standardObjectPrototype_def)
  have differ: "\<not> isSameDependenciesUntyped plainEnv (FValue DUndefined) (FArray (Deps 1 []))"
    by (simp add: isSameDependenciesUntyped_def isUndefined_def nullish_def Let_def)
  have none: "queueCalls (initialWorld :: jsval world) = []"
    by (simp add: initialWorld_def)
  show ?thesis
    using inh same own differ none
    by (simp add: exec_def execQueueEffect_def Let_def)
qed

subsection \<open>Fingerprints\<close>

lemma globalResourceHash_pure: "snd (globalResourceHash env desc) = desc"
  by (simp add: globalResourceHash_def)

lemma replacer_handle:
  "map_of fs ''instanceId'' = Some i \<Longrightarrow> replacer (JObj fs) = i"
  by (simp add: replacer_def)

lemma replacer_other:
  "map_of fs ''instanceId'' = None \<Longrightarrow> replacer (JObj fs) = JObj fs"
  by (simp add: replacer_def)

lemma localResourceHash_owner:
  "map_of (snd (localResourceHash env desc owner)) ''owningDevice'' =
     Some (tokenValue (deviceInstanceId owner))"
  by (simp add: localResourceHash_def Let_def AList.update_conv')

lemma localResourceHash_fingerprint:
  "fst (localResourceHash env desc owner) =
     hash env replacer (JObj (snd (localResourceHash env desc owner)))"
  by (simp add: localResourceHash_def Let_def)

lemma localResourceHash_again:
  "localResourceHash env (snd (localResourceHash env desc owner)) owner =
     localResourceHash env desc owner"
  by (simp add: localResourceHash_def Let_def)

text \<open>
  Claim C7 at the descriptor \<^verbatim>\<open>{size: 256, label: "a"}\<close> and the device with identity
  7: \<open>localResourceHash\<close> leaves the descriptor with a third property,
  \<^verbatim>\<open>owningDevice: 7\<close>; the claim says it is left unchanged. (\<open>globalResourceHash\<close>
  does leave its descriptor unchanged, see \<open>globalResourceHash_pure\<close>.)
\<close>

theorem localResourceHash_writes_descriptor:
  "snd (localResourceHash env [(''size'', JNum 256), (''label'', JStr ''a'')] (Device 7)) =
     [(''size'', JNum 256), (''label'', JStr ''a''), (''owningDevice'', JNum 7)] \<and>
   snd (localResourceHash env [(''size'', JNum 256), (''label'', JStr ''a'')] (Device 7)) \<noteq>
     [(''size'', JNum 256), (''label'', JStr ''a'')]"
  by (simp add: localResourceHash_def Let_def tokenValue_def)

subsection \<open>Actions\<close>

lemma exec_action:
  "fst (exec env dev (Action a) cs cid s) = Inr (Thunk a) \<and>
   futures (snd (exec env dev (Action a) cs cid s)) = futures s \<and>
   actionContext (snd (exec env dev (Action a) cs cid s)) = actionContext s \<and>
   settleCalls (snd (exec env dev (Action a) cs cid s)) = settleCalls s"
  by (simp add: exec_def Let_def)

lemma invokeThunk_pending:
  "futures (snd (invokeThunk a s)) (fst (invokeThunk a s)) = Pending \<and>
   actionContext (snd (invokeThunk a s)) = actionContext s @ [(a, fst (invokeThunk a s))] \<and>
   settleCalls (snd (invokeThunk a s)) = settleCalls s"
  by (simp add: invokeThunk_def Let_def)

lemma runQueued_fulfilled:
  "futures s t = Pending \<Longrightarrow>
   futures (snd (runQueued (ReturnsFulfilled v, t) s)) t = Fulfilled v \<and>
   settleCalls (snd (runQueued (ReturnsFulfilled v, t) s)) = settleCalls s @ [(t, Fulfilled v)]"
  by (simp add: runQueued_def settle_def Let_def)

lemma runQueued_rejected:
  "futures s t = Pending \<Longrightarrow>
   futures (snd (runQueued (ReturnsRejected e, t) s)) t = Rejected e \<and>
   settleCalls (snd (runQueued (ReturnsRejected e, t) s)) = settleCalls s @ [(t, Rejected e)]"
  by (simp add: runQueued_def settle_def Let_def)

lemma settled_stays:
  "futures s t \<noteq> Pending \<Longrightarrow> futures (snd (runQueued (a, t') s)) t = futures s t"
  by (cases a) (auto simp: runQueued_def settle_def Let_def)

text \<open>
  Claim C8 at an action that throws before it returns a promise: the thunk makes the
  future, pending, and queues the wrapper; the wrapper, called by the frame driver,
  never calls \<^verbatim>\<open>promise.reject\<close>: the future is still pending and the wrapper's own
  promise is the one rejected. The claim says the future is rejected.
\<close>

theorem throwing_action_leaves_future_pending:
  "futures (snd (runQueued (Throws e, fst (invokeThunk (Throws e) s))
                   (snd (invokeThunk (Throws e) s))))
       (fst (invokeThunk (Throws e) s)) = Pending \<and>
   fst (runQueued (Throws e, fst (invokeThunk (Throws e) s)) (snd (invokeThunk (Throws e) s))) =
     Rejected e \<and>
   settleCalls (snd (runQueued (Throws e, fst (invokeThunk (Throws e) s))
                       (snd (invokeThunk (Throws e) s)))) = settleCalls s"
  by (simp add: runQueued_def invokeThunk_def Let_def)

subsection \<open>The branches of the dispatcher\<close>

lemma cached_contexts [simp]: "cached (s\<lparr>contexts := x\<rparr>) = cached s"
  by (simp add: cached_def fun_eq_iff split: option.splits)

lemma localCache_initContext [simp]: "localCache k (initContext c) = localCache k c"
  by (cases k) (simp_all add: localCache_def)

lemma localCache_setLocalCache:
  "localCache k' (setLocalCache k m c) = (if k' = k then m else localCache k' c)"
  by (cases k; cases k') (simp_all add: localCache_def setLocalCache_def)

lemma exec_createGlobal:
  "exec env dev (createGlobal k d) cs cid s =
     execGlobal env dev k d (s\<lparr>contexts := (contexts s)(cid := initContext (contexts s cid))\<rparr>)"
  by (cases k) (simp_all add: exec_def createGlobal_def Let_def)

lemma exec_createLocal:
  "exec env dev (createLocal k d) cs cid s =
     execLocal env dev k d (stringHash env (join cs ''@'')) cid
       (s\<lparr>contexts := (contexts s)(cid := initContext (contexts s cid))\<rparr>)"
  by (cases k) (simp_all add: exec_def createLocal_def Let_def)

lemma execGlobal_hit:
  assumes "map_of (cached s k dev) (fst (globalResourceHash env d)) = Some r"
  shows "execGlobal env dev k d s = (Inr (Res r), s)"
proof (cases "map_of (CACHE s k) dev")
  case None
  with assms show ?thesis by (simp add: cached_def)
next
  case (Some c)
  with assms show ?thesis by (simp add: cached_def execGlobal_def getCache_def)
qed

lemma execGlobal_miss:
  assumes "map_of (cached s k dev) (fst (globalResourceHash env d)) = None"
    and "deviceAccepts env dev (Global k) d"
  shows "fst (execGlobal env dev k d s) = Inr (Res (Resource (nextId s)))"
    and "map_of (cached (snd (execGlobal env dev k d s)) k dev) (fst (globalResourceHash env d)) =
           Some (Resource (nextId s))"
    and "creations (snd (execGlobal env dev k d s)) = creations s @ [(dev, Global k, d)]"
    and "nextId (snd (execGlobal env dev k d s)) = Suc (nextId s)"
  using assms
  by (cases "map_of (CACHE s k) dev";
      simp add: cached_def execGlobal_def getCache_def deviceCreate_def subscribeLost_def Let_def
          AList.update_conv')+

lemma execGlobal_fail:
  assumes "map_of (cached s k dev) (fst (globalResourceHash env d)) = None"
    and "\<not> deviceAccepts env dev (Global k) d"
  shows "fst (execGlobal env dev k d s) = Inl BackendError"
    and "cached (snd (execGlobal env dev k d s)) k dev = cached s k dev"
    and "creations (snd (execGlobal env dev k d s)) = creations s @ [(dev, Global k, d)]"
    and "nextId (snd (execGlobal env dev k d s)) = nextId s"
    and "logs (snd (execGlobal env dev k d s)) = logs s"
  using assms
  by (cases "map_of (CACHE s k) dev";
      simp add: cached_def execGlobal_def getCache_def deviceCreate_def subscribeLost_def Let_def
          AList.update_conv')+

lemma execGlobal_contexts: "contexts (snd (execGlobal env dev k d s)) = contexts s"
  by (simp add: execGlobal_def getCache_def deviceCreate_def subscribeLost_def Let_def
        split: option.splits)

lemma execLocal_hit:
  assumes "map_of (localCache k (contexts s cid)) (fst (localResourceHash env d dev)) = Some r"
  shows "execLocal env dev k d ck cid s = (Inr (Res r), s)"
  using assms by (simp add: execLocal_def case_prod_beta)

lemma execLocal_miss:
  assumes "map_of (localCache k (contexts s cid)) (fst (localResourceHash env d dev)) = None"
    and "deviceAccepts env dev (Local k) (snd (localResourceHash env d dev))"
  shows "execLocal env dev k d ck cid s =
     (Inr (Res (Resource (nextId s))),
      s\<lparr>creations := creations s @ [(dev, Local k, snd (localResourceHash env d dev))],
        nextId := Suc (nextId s),
        contexts := (contexts s)
          (cid := setLocalCache k
                    (AList.update (fst (localResourceHash env d dev)) (Resource (nextId s))
                       (localCache k (contexts s cid)))
                    (contexts s cid)),
        logs := logs s @
          [CreatedLocal k (labelOf (snd (localResourceHash env d dev))) (nextId s) ck]\<rparr>)"
  using assms by (simp add: execLocal_def deviceCreate_def Let_def case_prod_beta)

lemma execLocal_fail:
  assumes "map_of (localCache k (contexts s cid)) (fst (localResourceHash env d dev)) = None"
    and "\<not> deviceAccepts env dev (Local k) (snd (localResourceHash env d dev))"
  shows "execLocal env dev k d ck cid s =
     (Inl BackendError,
      s\<lparr>creations := creations s @ [(dev, Local k, snd (localResourceHash env d dev))]\<rparr>)"
  using assms by (simp add: execLocal_def deviceCreate_def Let_def case_prod_beta)

subsection \<open>Disposal and the handlers of the lost signal\<close>

lemma destroyAll_eq: "destroyAll rs s = s\<lparr>destroyed := destroyed s @ rs\<rparr>"
proof (induction rs arbitrary: s)
  case Nil
  show ?case by (simp add: destroyAll_def)
next
  case (Cons r rs)
  have "destroyAll (r # rs) s = destroyAll rs (s\<lparr>destroyed := destroyed s @ [r]\<rparr>)"
    by (simp add: destroyAll_def)
  then show ?case by (simp add: Cons.IH)
qed

lemma dispose_eq:
  "dispose cid s =
     s\<lparr>destroyed := destroyed s @ map snd (entries (textures (contexts s cid))) @
                      map snd (entries (buffers (contexts s cid)))\<rparr>"
  by (simp add: dispose_def Let_def destroyAll_eq entries_def split: option.splits)

lemma onLost_fields [simp]:
  "nextMap (onLost j s) = nextMap s"
  "lostResolved (onLost j s) = lostResolved s"
  "reactions (onLost j s) = reactions s"
  "microtasks (onLost j s) = microtasks s"
  "nextId (onLost j s) = nextId s"
  "creations (onLost j s) = creations s"
  "destroyed (onLost j s) = destroyed s"
  "contexts (onLost j s) = contexts s"
  by (simp_all add: onLost_def Let_def case_prod_beta)

lemma onLost_maps:
  "maps (onLost j s) c = (if c = snd (snd j) then [] else maps s c)"
  by (simp add: onLost_def Let_def case_prod_beta)

lemma onLost_CACHE:
  "map_of (CACHE (onLost j s) k) dev =
     (if k = fst (snd j) \<and> dev = fst j then None else map_of (CACHE s k) dev)"
  by (auto simp: onLost_def Let_def case_prod_beta AList.delete_conv')

lemma onLost_logs:
  "logs (onLost j s) = logs s @ [clearedReport s j]"
  by (simp add: onLost_def Let_def case_prod_beta clearedReport_def)

lemma fold_onLost_fields [simp]:
  "nextMap (fold onLost js s) = nextMap s"
  "lostResolved (fold onLost js s) = lostResolved s"
  "reactions (fold onLost js s) = reactions s"
  "microtasks (fold onLost js s) = microtasks s"
  "nextId (fold onLost js s) = nextId s"
  "creations (fold onLost js s) = creations s"
  "destroyed (fold onLost js s) = destroyed s"
  "contexts (fold onLost js s) = contexts s"
  by (induction js arbitrary: s; simp)+

lemma fold_onLost_maps:
  "maps (fold onLost js s) c = (if c \<in> (\<lambda>j. snd (snd j)) ` set js then [] else maps s c)"
  by (induction js arbitrary: s) (auto simp: onLost_maps)

lemma fold_onLost_CACHE:
  "map_of (CACHE (fold onLost js s) k) dev =
     (if \<exists>c. (dev, k, c) \<in> set js then None else map_of (CACHE s k) dev)"
proof (induction js arbitrary: s)
  case Nil
  show ?case by simp
next
  case (Cons j js)
  obtain d k' c' where j: "j = (d, k', c')" by (cases j) auto
  show ?case
    by (auto simp: Cons.IH onLost_CACHE j)
qed

lemma fold_onLost_logs:
  "distinct (map (\<lambda>j. snd (snd j)) js) \<Longrightarrow>
   logs (fold onLost js s) = logs s @ map (clearedReport s) js"
proof (induction js arbitrary: s)
  case Nil
  show ?case by simp
next
  case (Cons j js)
  have "snd (snd j) \<notin> (\<lambda>j. snd (snd j)) ` set js"
    using Cons.prems by simp
  then have other: "\<forall>j' \<in> set js. snd (snd j') \<noteq> snd (snd j)"
    by (metis (no_types, lifting) image_eqI)
  have "map (clearedReport (onLost j s)) js = map (clearedReport s) js"
    using other by (simp add: clearedReport_def onLost_maps)
  with Cons show ?case by (simp add: onLost_logs)
qed

subsection \<open>Global memoization\<close>

text \<open>
  Claim C1. For every device \<open>dev\<close>, every global kind \<open>k\<close> and every descriptor:
  when the cache of \<open>(k, dev)\<close> has no entry for the fingerprint and the device
  accepts the descriptor, two requests (from any call sites and contexts) return the
  same resource instance, the creation function of the device has been called exactly
  once for both, and the second request leaves every cache as it was; and whenever
  the cache has an entry, that resource is returned, nothing is created and the
  registries and their maps are unchanged.
\<close>

theorem global_memoization:
  fixes s :: "'fp world"
  shows
    "(map_of (cached s k dev) (fst (globalResourceHash env d)) = None \<and>
      deviceAccepts env dev (Global k) d \<longrightarrow>
        (let e1 = exec env dev (createGlobal k d) cs cid s;
             e2 = exec env dev (createGlobal k d) cs' cid' (snd e1)
         in fst e1 = Inr (Res (Resource (nextId s))) \<and>
            fst e2 = Inr (Res (Resource (nextId s))) \<and>
            creations (snd e2) = creations s @ [(dev, Global k, d)] \<and>
            cached (snd e2) = cached (snd e1))) \<and>
     (map_of (cached s k dev) (fst (globalResourceHash env d)) = Some r \<longrightarrow>
        (let e = exec env dev (createGlobal k d) cs cid s
         in fst e = Inr (Res r) \<and>
            creations (snd e) = creations s \<and>
            CACHE (snd e) = CACHE s \<and> maps (snd e) = maps s))"
proof (intro conjI impI)
  assume a: "map_of (cached s k dev) (fst (globalResourceHash env d)) = None \<and>
      deviceAccepts env dev (Global k) d"
  define s0 where "s0 = s\<lparr>contexts := (contexts s)(cid := initContext (contexts s cid))\<rparr>"
  define s1 where "s1 = snd (execGlobal env dev k d s0)"
  define s1' where "s1' = s1\<lparr>contexts := (contexts s1)(cid' := initContext (contexts s1 cid'))\<rparr>"
  have miss: "map_of (cached s0 k dev) (fst (globalResourceHash env d)) = None"
    using a by (simp add: s0_def)
  have acc: "deviceAccepts env dev (Global k) d" using a by simp
  have r1: "fst (execGlobal env dev k d s0) = Inr (Res (Resource (nextId s)))"
    using execGlobal_miss(1) [OF miss acc] by (simp add: s0_def)
  have c1: "creations s1 = creations s @ [(dev, Global k, d)]"
    using execGlobal_miss(3) [OF miss acc] by (simp add: s0_def s1_def)
  have "map_of (cached s1 k dev) (fst (globalResourceHash env d)) = Some (Resource (nextId s))"
    using execGlobal_miss(2) [OF miss acc] by (simp add: s0_def s1_def)
  then have hit: "map_of (cached s1' k dev) (fst (globalResourceHash env d)) =
      Some (Resource (nextId s))"
    by (simp add: s1'_def)
  have e2: "execGlobal env dev k d s1' = (Inr (Res (Resource (nextId s))), s1')"
    by (rule execGlobal_hit [OF hit])
  show "let e1 = exec env dev (createGlobal k d) cs cid s;
            e2 = exec env dev (createGlobal k d) cs' cid' (snd e1)
        in fst e1 = Inr (Res (Resource (nextId s))) \<and>
           fst e2 = Inr (Res (Resource (nextId s))) \<and>
           creations (snd e2) = creations s @ [(dev, Global k, d)] \<and>
           cached (snd e2) = cached (snd e1)"
    using r1 c1 e2
    by (simp add: Let_def exec_createGlobal s0_def [symmetric] s1_def [symmetric]
          s1'_def [symmetric]) (simp add: s1'_def)
next
  assume a: "map_of (cached s k dev) (fst (globalResourceHash env d)) = Some r"
  define s0 where "s0 = s\<lparr>contexts := (contexts s)(cid := initContext (contexts s cid))\<rparr>"
  have hit: "map_of (cached s0 k dev) (fst (globalResourceHash env d)) = Some r"
    using a by (simp add: s0_def)
  have "execGlobal env dev k d s0 = (Inr (Res r), s0)"
    by (rule execGlobal_hit [OF hit])
  then show "let e = exec env dev (createGlobal k d) cs cid s
         in fst e = Inr (Res r) \<and>
            creations (snd e) = creations s \<and>
            CACHE (snd e) = CACHE s \<and> maps (snd e) = maps s"
    by (simp add: Let_def exec_createGlobal s0_def [symmetric]) (simp add: s0_def)
qed

text \<open>
  Claim C1 at the module as loaded: a shader module requested twice for device 7, from
  two call sites and two contexts, is the resource 0 both times, created once; the
  second request finds it in the cache and leaves the registry and its maps as they
  were.
\<close>

theorem global_memoization_witness:
  "map_of (cached (initialWorld :: jsval world) ShaderModule (Device 7))
      (fst (globalResourceHash plainEnv [(''code'', JStr ''fn main() {}'')])) = None \<and>
   deviceAccepts plainEnv (Device 7) (Global ShaderModule) [(''code'', JStr ''fn main() {}'')] \<and>
   (let e1 = exec plainEnv (Device 7) (createGlobal ShaderModule [(''code'', JStr ''fn main() {}'')])
               [''A''] 0 initialWorld;
        e2 = exec plainEnv (Device 7) (createGlobal ShaderModule [(''code'', JStr ''fn main() {}'')])
               [''B''] 1 (snd e1)
    in fst e1 = Inr (Res (Resource 0)) \<and> fst e2 = Inr (Res (Resource 0)) \<and>
       creations (snd e2) =
         [(Device 7, Global ShaderModule, [(''code'', JStr ''fn main() {}'')])] \<and>
       map_of (cached (snd e1) ShaderModule (Device 7))
         (fst (globalResourceHash plainEnv [(''code'', JStr ''fn main() {}'')])) =
         Some (Resource 0) \<and>
       CACHE (snd e2) = CACHE (snd e1) \<and> maps (snd e2) = maps (snd e1))"
proof -
  let ?d = "[(''code'', JStr ''fn main() {}'')]"
  define s1 :: "jsval world" where
    "s1 = snd (exec plainEnv (Device 7) (createGlobal ShaderModule ?d) [''A''] 0 initialWorld)"
  have miss: "map_of (cached (initialWorld :: jsval world) ShaderModule (Device 7))
      (fst (globalResourceHash plainEnv ?d)) = None"
    by (simp add: cached_def initialWorld_def)
  have acc: "deviceAccepts plainEnv (Device 7) (Global ShaderModule) ?d"
    by (simp add: plainEnv_def)
  have n: "nextId (initialWorld :: jsval world) = 0" "creations (initialWorld :: jsval world) = []"
    by (simp_all add: initialWorld_def)
  have hit: "map_of (cached s1 ShaderModule (Device 7)) (fst (globalResourceHash plainEnv ?d)) =
      Some (Resource 0)"
    unfolding s1_def by (simp add: cached_def createGlobal_def eval_defs)
  show ?thesis
    using miss acc n hit
      global_memoization [of initialWorld ShaderModule "Device 7" plainEnv ?d "[''A'']" 0
        "[''B'']" 1]
      global_memoization [where s = s1 and k = ShaderModule and dev = "Device 7" and
        env = plainEnv and d = ?d and r = "Resource 0" and cs = "[''B'']" and cid = 1]
    by (simp add: Let_def s1_def [symmetric])
qed

text \<open>
  Claim C9. For every global kind and device: on a cache miss, when the creation
  function of the device fails, \<open>exec\<close> fails with that error, the cache of the kind
  and device has the entries it had, no resource identity is used up, and the creation
  function has been called once, not again.
\<close>

theorem creation_failure_atomicity:
  fixes s :: "'fp world"
  assumes "map_of (cached s k dev) (fst (globalResourceHash env d)) = None"
    and "\<not> deviceAccepts env dev (Global k) d"
  shows
    "(let e = exec env dev (createGlobal k d) cs cid s
      in fst e = Inl BackendError \<and>
         cached (snd e) k dev = cached s k dev \<and>
         creations (snd e) = creations s @ [(dev, Global k, d)] \<and>
         nextId (snd e) = nextId s)"
proof -
  define s0 where "s0 = s\<lparr>contexts := (contexts s)(cid := initContext (contexts s cid))\<rparr>"
  have miss: "map_of (cached s0 k dev) (fst (globalResourceHash env d)) = None"
    using assms(1) by (simp add: s0_def)
  show ?thesis
    using execGlobal_fail [OF miss assms(2)]
    by (simp add: Let_def exec_createGlobal s0_def [symmetric]) (simp add: s0_def)
qed

text \<open>
  Claim C9 at the module as loaded, with a device that rejects every descriptor: the
  request of a sampler fails, the sampler cache of the device is empty afterwards,
  and one creation call was made.
\<close>

theorem creation_failure_atomicity_witness:
  "map_of (cached (initialWorld :: jsval world) Sampler (Device 1))
      (fst (globalResourceHash rejectingEnv [(''magFilter'', JStr ''linear'')])) = None \<and>
   \<not> deviceAccepts rejectingEnv (Device 1) (Global Sampler) [(''magFilter'', JStr ''linear'')] \<and>
   (let e = exec rejectingEnv (Device 1) (createGlobal Sampler [(''magFilter'', JStr ''linear'')])
              [''A''] 0 initialWorld
    in fst e = Inl BackendError \<and>
       cached (snd e) Sampler (Device 1) = [] \<and>
       creations (snd e) = [(Device 1, Global Sampler, [(''magFilter'', JStr ''linear'')])])"
proof -
  have miss: "map_of (cached (initialWorld :: jsval world) Sampler (Device 1))
      (fst (globalResourceHash rejectingEnv [(''magFilter'', JStr ''linear'')])) = None"
    by (simp add: cached_def initialWorld_def)
  have rej: "\<not> deviceAccepts rejectingEnv (Device 1) (Global Sampler)
      [(''magFilter'', JStr ''linear'')]"
    by (simp add: rejectingEnv_def)
  have n: "cached (initialWorld :: jsval world) Sampler (Device 1) = []"
    "creations (initialWorld :: jsval world) = []"
    by (simp_all add: initialWorld_def cached_def)
  show ?thesis
    using miss rej n
      creation_failure_atomicity [OF miss rej, of "[''A'']" 0]
    by (simp add: Let_def)
qed

subsection \<open>Every history keeps the local caches in order\<close>

lemma update_miss: "map_of al k = None \<Longrightarrow> AList.update k v al = al @ [(k, v)]"
  by (induction al) (auto split: if_splits)

lemma localResources_initContext [simp]:
  "localResources (initContext c) = localResources c"
  by (simp add: localResources_def)

lemma localResources_deps [simp]:
  "localResources (c\<lparr>frameDeps := x\<rparr>) = localResources c"
  "localResources (c\<lparr>queueEffectsDeps := y\<rparr>) = localResources c"
  by (simp_all add: localResources_def)

lemma localResources_miss:
  assumes "map_of (localCache k c) key = None"
  shows "set (localResources (setLocalCache k (AList.update key r (localCache k c)) c)) =
           insert r (set (localResources c))"
    and "distinct (localResources (setLocalCache k (AList.update key r (localCache k c)) c)) \<longleftrightarrow>
           distinct (localResources c) \<and> r \<notin> set (localResources c)"
  using assms
  by (cases k; auto simp: localResources_def setLocalCache_def localCache_def update_miss)+

lemma localsOk_frame:
  assumes "localsOk s"
    and "\<And>cid. localResources (contexts t cid) = localResources (contexts s cid)"
    and "nextId s \<le> nextId t"
  shows "localsOk t"
proof -
  have "\<forall>cid. \<forall>r\<in>set (localResources (contexts s cid)). instanceId r < nextId t"
    using assms(1,3) unfolding localsOk_def by (meson less_le_trans)
  then show ?thesis
    using assms(1) unfolding localsOk_def by (simp add: assms(2))
qed

lemma localsOk_execLocal:
  assumes "localsOk s"
  shows "localsOk (snd (execLocal env dev k d ck cid s))"
proof (cases "map_of (localCache k (contexts s cid)) (fst (localResourceHash env d dev))")
  case (Some r)
  then show ?thesis using assms by (simp add: execLocal_hit)
next
  case None
  show ?thesis
  proof (cases "deviceAccepts env dev (Local k) (snd (localResourceHash env d dev))")
    case False
    show ?thesis
      by (rule localsOk_frame [OF assms]) (simp_all add: execLocal_fail [OF None False])
  next
    case True
    let ?r = "Resource (nextId s)"
    have new: "\<And>c. ?r \<notin> set (localResources (contexts s c))"
      using assms unfolding localsOk_def by fastforce
    show ?thesis
      using assms new
      unfolding localsOk_def execLocal_miss [OF None True]
      by (auto simp: localResources_miss [OF None] less_Suc_eq)
  qed
qed

lemma localsOk_init:
  assumes "localsOk s"
  shows "localsOk (s\<lparr>contexts := (contexts s)(cid := initContext (contexts s cid))\<rparr>)"
  by (rule localsOk_frame [OF assms]) simp_all

lemma execGlobal_nextId: "nextId s \<le> nextId (snd (execGlobal env dev k d s))"
  by (simp add: execGlobal_def getCache_def deviceCreate_def subscribeLost_def Let_def
        split: option.splits)

lemma localsOk_exec:
  assumes "localsOk s"
  shows "localsOk (snd (exec env dev cl cs cid s))"
proof -
  define s0 where "s0 = s\<lparr>contexts := (contexts s)(cid := initContext (contexts s cid))\<rparr>"
  have ok0: "localsOk s0" unfolding s0_def by (rule localsOk_init [OF assms])
  have g: "\<And>k d. localsOk (snd (execGlobal env dev k d s0))"
    by (rule localsOk_frame [OF ok0]) (simp_all add: execGlobal_contexts execGlobal_nextId)
  have l: "\<And>k d ck. localsOk (snd (execLocal env dev k d ck cid s0))"
    by (rule localsOk_execLocal [OF ok0])
  have q: "\<And>q ds ck fh. localsOk (snd (execQueueEffect env dev q ds ck fh cid s0))"
    by (rule localsOk_frame [OF ok0]) (simp_all add: execQueueEffect_def Let_def)
  have p: "\<And>f ds ck. localsOk (snd (execPushFrame env f ds ck cid s0))"
    by (rule localsOk_frame [OF ok0]) (simp_all add: execPushFrame_def Let_def split: option.splits)
  show ?thesis
    using g l q p ok0
    by (cases cl) (simp_all add: exec_def Let_def s0_def [symmetric])
qed

lemma localsOk_perform:
  assumes "localsOk s"
  shows "localsOk (perform env ev s)"
proof (cases ev)
  case (Exec dev cl cs cid)
  then show ?thesis using assms by (simp add: localsOk_exec)
next
  case (Dispose cid)
  show ?thesis unfolding Dispose
    by (rule localsOk_frame [OF assms]) (simp_all add: dispose_eq)
next
  case (DeviceLost dev)
  show ?thesis unfolding DeviceLost
    by (rule localsOk_frame [OF assms])
       (simp_all add: deviceLost_def runMicrotasks_def resolveLost_def)
next
  case Checkpoint
  show ?thesis unfolding Checkpoint
    by (rule localsOk_frame [OF assms]) (simp_all add: runMicrotasks_def)
next
  case (InvokeThunk a)
  show ?thesis unfolding InvokeThunk
    by (rule localsOk_frame [OF assms]) (simp_all add: invokeThunk_def Let_def)
next
  case (RunQueued a t)
  show ?thesis unfolding RunQueued
    by (rule localsOk_frame [OF assms])
       (cases a; simp add: runQueued_def settle_def Let_def)+
qed

lemma localsOk_run: "localsOk s \<Longrightarrow> localsOk (run env evs s)"
  unfolding run_def by (induction evs arbitrary: s) (simp_all add: localsOk_perform)

lemma localsOk_initialWorld: "localsOk initialWorld"
  by (simp add: localsOk_def initialWorld_def newContext_def localResources_def)

lemma localsOk_reachable: "localsOk (run env evs initialWorld)"
  by (rule localsOk_run [OF localsOk_initialWorld])

subsection \<open>Every history keeps the registries in order\<close>

lemma set_update_subset: "set (AList.update k v al) \<subseteq> insert (k, v) (set al)"
  by (induction al) auto

lemma registriesOk_frame:
  assumes "registriesOk s"
    and "CACHE t = CACHE s" "maps t = maps s" "nextMap t = nextMap s"
    and "lostResolved t = lostResolved s" "reactions t = reactions s"
    and "microtasks t = microtasks s" "nextId s \<le> nextId t"
  shows "registriesOk t"
proof -
  have "\<forall>c. \<forall>r \<in> snd ` set (maps s c). instanceId r < nextId t"
    using assms(1,8) unfolding registriesOk_def by (meson less_le_trans)
  then show ?thesis
    using assms(1) unfolding registriesOk_def pendingJobs_def
    by (simp add: assms(2-7))
qed

lemma getCache_present:
  "map_of (CACHE s k) dev = Some c \<Longrightarrow> getCache k dev s = (c, s)"
  by (simp add: getCache_def)

lemma getCache_absent:
  "map_of (CACHE s k) dev = None \<Longrightarrow>
   getCache k dev s =
     (nextMap s,
      subscribeLost dev (k, nextMap s)
        (s\<lparr>nextMap := Suc (nextMap s), maps := (maps s)(nextMap s := []),
           CACHE := (CACHE s)(k := AList.update dev (nextMap s) (CACHE s k))\<rparr>))"
  by (simp add: getCache_def Let_def)

lemma registriesOk_getCache:
  assumes "registriesOk s"
  shows "registriesOk (snd (getCache k dev s))"
proof (cases "map_of (CACHE s k) dev")
  case (Some c)
  then show ?thesis using assms by (simp add: getCache_present)
next
  case None
  have fresh: "\<forall>j \<in> set (pendingJobs s). snd (snd j) < nextMap s"
    using assms unfolding registriesOk_def by blast
  have nojob: "\<forall>j \<in> set (pendingJobs s). \<not> (fst j = dev \<and> fst (snd j) = k)"
    using assms None unfolding registriesOk_def by force
  have notin: "nextMap s \<notin> (\<lambda>j. snd (snd j)) ` set (pendingJobs s)"
    using fresh by force
  show ?thesis
    using assms fresh nojob notin
    unfolding getCache_absent [OF None] registriesOk_def subscribeLost_def pendingJobs_def
    by (auto simp: AList.update_conv' less_Suc_eq split: if_splits)
qed


lemma execGlobal_world:
  "snd (execGlobal env dev k d s) =
     (let c = fst (getCache k dev s); s1 = snd (getCache k dev s);
          key = fst (globalResourceHash env d)
      in case map_of (maps s1 c) key of
           Some r \<Rightarrow> s1
         | None \<Rightarrow>
             if deviceAccepts env dev (Global k) d
             then s1\<lparr>creations := creations s1 @ [(dev, Global k, d)],
                     nextId := Suc (nextId s1),
                     maps := (maps s1)(c := AList.update key (Resource (nextId s1)) (maps s1 c)),
                     logs := logs s1 @
                       [CreatedGlobal k (labelOf d) (nextId s1) (deviceInstanceId dev)]\<rparr>
             else s1\<lparr>creations := creations s1 @ [(dev, Global k, d)]\<rparr>)"
  by (simp add: execGlobal_def deviceCreate_def Let_def case_prod_beta split: option.splits)

lemma registriesOk_store:
  assumes "registriesOk s"
  shows "registriesOk
     (s\<lparr>creations := x, nextId := Suc (nextId s),
        maps := (maps s)(c := AList.update key (Resource (nextId s)) (maps s c)),
        logs := l\<rparr>)"
proof -
  have old: "\<forall>c'. \<forall>r \<in> snd ` set (maps s c'). instanceId r < nextId s"
    using assms unfolding registriesOk_def by blast
  have "\<forall>r \<in> snd ` set (AList.update key (Resource (nextId s)) (maps s c)).
          instanceId r < Suc (nextId s)"
  proof
    fix r assume "r \<in> snd ` set (AList.update key (Resource (nextId s)) (maps s c))"
    then have "r = Resource (nextId s) \<or> r \<in> snd ` set (maps s c)"
      using set_update_subset [of key "Resource (nextId s)" "maps s c"] by force
    then show "instanceId r < Suc (nextId s)"
      using old by (auto simp: less_Suc_eq)
  qed
  then show ?thesis
    using assms old unfolding registriesOk_def pendingJobs_def
    by (simp add: less_Suc_eq)
qed

lemma registriesOk_execGlobal:
  assumes "registriesOk s"
  shows "registriesOk (snd (execGlobal env dev k d s))"
proof -
  have s1: "registriesOk (snd (getCache k dev s))"
    by (rule registriesOk_getCache [OF assms])
  have fail: "registriesOk
      (snd (getCache k dev s)\<lparr>creations := creations (snd (getCache k dev s)) @ [(dev, Global k, d)]\<rparr>)"
    by (rule registriesOk_frame [OF s1]) simp_all
  show ?thesis
    unfolding execGlobal_world Let_def
    using s1 fail registriesOk_store [OF s1]
    by (simp split: option.splits)
qed

lemma registriesOk_resolveLost:
  assumes "registriesOk s"
  shows "registriesOk (resolveLost dev s)"
proof (cases "dev \<in> set (lostResolved s)")
  case True
  then show ?thesis using assms by (simp add: resolveLost_def)
next
  case False
  let ?t = "resolveLost dev s"
  have re: "reactions ?t = filter (\<lambda>j. fst j \<noteq> dev) (reactions s)"
    and mt: "microtasks ?t = microtasks s @ filter (\<lambda>j. fst j = dev) (reactions s)"
    and lr: "lostResolved ?t = lostResolved s @ [dev]"
    and same: "CACHE ?t = CACHE s" "maps ?t = maps s" "nextMap ?t = nextMap s" "nextId ?t = nextId s"
    using False by (simp_all add: resolveLost_def)
  have set_eq: "set (pendingJobs ?t) = set (pendingJobs s)"
    unfolding pendingJobs_def re mt by auto
  have d0: "distinct (map (\<lambda>j. snd (snd j)) (pendingJobs s))"
    using assms unfolding registriesOk_def by blast
  then have dist: "distinct (pendingJobs s)" and inj: "inj_on (\<lambda>j. snd (snd j)) (set (pendingJobs s))"
    by (simp_all add: distinct_map)
  have "distinct (pendingJobs ?t)"
    using dist unfolding pendingJobs_def re mt by auto
  then have d1: "distinct (map (\<lambda>j. snd (snd j)) (pendingJobs ?t))"
    using inj set_eq by (simp add: distinct_map)
  show ?thesis
    using assms d1 unfolding registriesOk_def set_eq same
    unfolding re mt lr by auto
qed

lemma registriesOk_runMicrotasks:
  assumes "registriesOk s"
  shows "registriesOk (runMicrotasks s)"
proof -
  let ?t = "runMicrotasks s"
  have fields: "reactions ?t = reactions s" "microtasks ?t = []" "nextMap ?t = nextMap s"
    "lostResolved ?t = lostResolved s" "nextId ?t = nextId s"
    by (simp_all add: runMicrotasks_def)
  have cache: "\<And>k dev. map_of (CACHE ?t k) dev =
      (if \<exists>c. (dev, k, c) \<in> set (microtasks s) then None else map_of (CACHE s k) dev)"
    by (simp add: runMicrotasks_def fold_onLost_CACHE)
  have mp: "\<And>c. maps ?t c = (if c \<in> (\<lambda>j. snd (snd j)) ` set (microtasks s) then [] else maps s c)"
    by (simp add: runMicrotasks_def fold_onLost_maps)
  have a1: "distinct (map (\<lambda>j. snd (snd j)) (reactions s))"
    using assms unfolding registriesOk_def pendingJobs_def by simp
  have a2: "\<forall>j \<in> set (reactions s).
        snd (snd j) < nextMap s \<and> map_of (CACHE s (fst (snd j))) (fst j) = Some (snd (snd j))"
    using assms unfolding registriesOk_def pendingJobs_def by simp
  have a3: "\<forall>j \<in> set (reactions s). fst j \<notin> set (lostResolved s)"
    using assms unfolding registriesOk_def by blast
  have a4: "\<forall>j \<in> set (microtasks s). fst j \<in> set (lostResolved s)"
    using assms unfolding registriesOk_def by blast
  have a5: "\<forall>k dev c. map_of (CACHE s k) dev = Some c \<longrightarrow>
        (dev, k, c) \<in> set (reactions s) \<union> set (microtasks s)"
    using assms unfolding registriesOk_def pendingJobs_def by simp
  have a6: "\<forall>c. \<forall>r \<in> snd ` set (maps s c). instanceId r < nextId s"
    using assms unfolding registriesOk_def by blast
  have b2: "\<forall>j \<in> set (reactions s).
        snd (snd j) < nextMap s \<and> map_of (CACHE ?t (fst (snd j))) (fst j) = Some (snd (snd j))"
  proof
    fix j assume j: "j \<in> set (reactions s)"
    have "\<not> (\<exists>c. (fst j, fst (snd j), c) \<in> set (microtasks s))"
      using a3 a4 j by force
    then show "snd (snd j) < nextMap s \<and>
        map_of (CACHE ?t (fst (snd j))) (fst j) = Some (snd (snd j))"
      using a2 j by (simp add: cache)
  qed
  have b5: "\<forall>k dev c. map_of (CACHE ?t k) dev = Some c \<longrightarrow> (dev, k, c) \<in> set (reactions s)"
  proof (intro allI impI)
    fix k dev c assume h: "map_of (CACHE ?t k) dev = Some c"
    then have no: "\<not> (\<exists>c. (dev, k, c) \<in> set (microtasks s))" and "map_of (CACHE s k) dev = Some c"
      by (simp_all add: cache split: if_splits)
    then show "(dev, k, c) \<in> set (reactions s)" using a5 by blast
  qed
  have b6: "\<forall>c. \<forall>r \<in> snd ` set (maps ?t c). instanceId r < nextId s"
    using a6 by (simp add: mp)
  show ?thesis
    unfolding registriesOk_def pendingJobs_def fields
    using a1 b2 a3 b5 b6 by simp
qed

lemma registriesOk_deviceLost: "registriesOk s \<Longrightarrow> registriesOk (deviceLost dev s)"
  by (simp add: deviceLost_def registriesOk_runMicrotasks registriesOk_resolveLost)

lemma execLocal_registries:
  "CACHE (snd (execLocal env dev k d ck cid s)) = CACHE s"
  "maps (snd (execLocal env dev k d ck cid s)) = maps s"
  "nextMap (snd (execLocal env dev k d ck cid s)) = nextMap s"
  "lostResolved (snd (execLocal env dev k d ck cid s)) = lostResolved s"
  "reactions (snd (execLocal env dev k d ck cid s)) = reactions s"
  "microtasks (snd (execLocal env dev k d ck cid s)) = microtasks s"
  "nextId s \<le> nextId (snd (execLocal env dev k d ck cid s))"
  by (simp_all add: execLocal_def deviceCreate_def Let_def case_prod_beta split: option.splits)

lemma registriesOk_exec:
  assumes "registriesOk s"
  shows "registriesOk (snd (exec env dev cl cs cid s))"
proof -
  define s0 where "s0 = s\<lparr>contexts := (contexts s)(cid := initContext (contexts s cid))\<rparr>"
  have ok0: "registriesOk s0"
    unfolding s0_def by (rule registriesOk_frame [OF assms]) simp_all
  have g: "\<And>k d. registriesOk (snd (execGlobal env dev k d s0))"
    by (rule registriesOk_execGlobal [OF ok0])
  have l: "\<And>k d ck. registriesOk (snd (execLocal env dev k d ck cid s0))"
    by (rule registriesOk_frame [OF ok0]) (simp_all add: execLocal_registries)
  have q: "\<And>q ds ck fh. registriesOk (snd (execQueueEffect env dev q ds ck fh cid s0))"
    by (rule registriesOk_frame [OF ok0]) (simp_all add: execQueueEffect_def Let_def)
  have p: "\<And>f ds ck. registriesOk (snd (execPushFrame env f ds ck cid s0))"
    by (rule registriesOk_frame [OF ok0]) (simp_all add: execPushFrame_def Let_def split: option.splits)
  show ?thesis
    using g l q p ok0
    by (cases cl) (simp_all add: exec_def Let_def s0_def [symmetric])
qed

lemma registriesOk_perform:
  assumes "registriesOk s"
  shows "registriesOk (perform env ev s)"
proof (cases ev)
  case (Exec dev cl cs cid)
  then show ?thesis using assms by (simp add: registriesOk_exec)
next
  case (Dispose cid)
  show ?thesis unfolding Dispose
    by (rule registriesOk_frame [OF assms]) (simp_all add: dispose_eq)
next
  case (DeviceLost dev)
  then show ?thesis using assms by (simp add: registriesOk_deviceLost)
next
  case Checkpoint
  then show ?thesis using assms by (simp add: registriesOk_runMicrotasks)
next
  case (InvokeThunk a)
  show ?thesis unfolding InvokeThunk
    by (rule registriesOk_frame [OF assms]) (simp_all add: invokeThunk_def Let_def)
next
  case (RunQueued a t)
  show ?thesis unfolding RunQueued
    by (rule registriesOk_frame [OF assms])
       (cases a; simp add: runQueued_def settle_def Let_def)+
qed

lemma registriesOk_run: "registriesOk s \<Longrightarrow> registriesOk (run env evs s)"
  unfolding run_def by (induction evs arbitrary: s) (simp_all add: registriesOk_perform)

lemma registriesOk_initialWorld: "registriesOk initialWorld"
  by (simp add: registriesOk_def initialWorld_def pendingJobs_def)

lemma registriesOk_reachable: "registriesOk (run env evs initialWorld)"
  by (rule registriesOk_run [OF registriesOk_initialWorld])

subsection \<open>Retired maps and lost devices\<close>

lemma retired_frame:
  assumes "retired c s"
    and "maps t = maps s" "nextMap t = nextMap s" "reactions t = reactions s"
    and "microtasks t = microtasks s"
  shows "retired c t"
  using assms by (simp add: retired_def pendingJobs_def)

lemma retired_getCache:
  assumes "registriesOk s" and "retired c s"
  shows "retired c (snd (getCache k dev s))" and "fst (getCache k dev s) \<noteq> c"
proof -
  show "retired c (snd (getCache k dev s))"
  proof (cases "map_of (CACHE s k) dev")
    case (Some c')
    then show ?thesis using assms(2) by (simp add: getCache_present)
  next
    case None
    show ?thesis
      using assms(2)
      unfolding getCache_absent [OF None] retired_def subscribeLost_def pendingJobs_def
      by (auto split: if_splits)
  qed
  show "fst (getCache k dev s) \<noteq> c"
  proof (cases "map_of (CACHE s k) dev")
    case (Some c')
    then have "(dev, k, c') \<in> set (pendingJobs s)"
      using assms(1) unfolding registriesOk_def by blast
    then have "c' \<in> (\<lambda>j. snd (snd j)) ` set (pendingJobs s)" by force
    then show ?thesis using assms(2) Some by (auto simp: getCache_present retired_def)
  next
    case None
    then show ?thesis using assms(2) by (simp add: getCache_absent retired_def)
  qed
qed

lemma retired_execGlobal:
  assumes "registriesOk s" and "retired c s"
  shows "retired c (snd (execGlobal env dev k d s))"
  using retired_getCache [OF assms, of k dev]
  unfolding execGlobal_world Let_def
  by (auto simp: retired_def pendingJobs_def split: option.splits)

lemma retired_exec:
  assumes "registriesOk s" and "retired c s"
  shows "retired c (snd (exec env dev cl cs cid s))"
proof -
  define s0 where "s0 = s\<lparr>contexts := (contexts s)(cid := initContext (contexts s cid))\<rparr>"
  have ok0: "registriesOk s0"
    unfolding s0_def by (rule registriesOk_frame [OF assms(1)]) simp_all
  have r0: "retired c s0"
    unfolding s0_def by (rule retired_frame [OF assms(2)]) simp_all
  have g: "\<And>k d. retired c (snd (execGlobal env dev k d s0))"
    by (rule retired_execGlobal [OF ok0 r0])
  have l: "\<And>k d ck. retired c (snd (execLocal env dev k d ck cid s0))"
    by (rule retired_frame [OF r0]) (simp_all add: execLocal_registries)
  have q: "\<And>q ds ck fh. retired c (snd (execQueueEffect env dev q ds ck fh cid s0))"
    by (rule retired_frame [OF r0]) (simp_all add: execQueueEffect_def Let_def)
  have p: "\<And>f ds ck. retired c (snd (execPushFrame env f ds ck cid s0))"
    by (rule retired_frame [OF r0]) (simp_all add: execPushFrame_def Let_def split: option.splits)
  show ?thesis
    using g l q p r0
    by (cases cl) (simp_all add: exec_def Let_def s0_def [symmetric])
qed

lemma retired_runMicrotasks:
  assumes "retired c s"
  shows "retired c (runMicrotasks s)"
  using assms
  by (auto simp: retired_def pendingJobs_def runMicrotasks_def fold_onLost_maps)

lemma retired_resolveLost:
  assumes "retired c s"
  shows "retired c (resolveLost dev s)"
  using assms
  by (auto simp: retired_def pendingJobs_def resolveLost_def)

lemma retired_perform:
  assumes "registriesOk s" and "retired c s"
  shows "retired c (perform env ev s)"
proof (cases ev)
  case (Exec dev cl cs cid)
  then show ?thesis using assms by (simp add: retired_exec)
next
  case (Dispose cid)
  show ?thesis unfolding Dispose
    by (rule retired_frame [OF assms(2)]) (simp_all add: dispose_eq)
next
  case (DeviceLost dev)
  then show ?thesis
    using assms(2) by (simp add: deviceLost_def retired_runMicrotasks retired_resolveLost)
next
  case Checkpoint
  then show ?thesis using assms(2) by (simp add: retired_runMicrotasks)
next
  case (InvokeThunk a)
  show ?thesis unfolding InvokeThunk
    by (rule retired_frame [OF assms(2)]) (simp_all add: invokeThunk_def Let_def)
next
  case (RunQueued a t)
  show ?thesis unfolding RunQueued
    by (rule retired_frame [OF assms(2)])
       (cases a; simp add: runQueued_def settle_def Let_def)+
qed

lemma retired_run:
  "registriesOk s \<Longrightarrow> retired c s \<Longrightarrow> retired c (run env evs s)"
  unfolding run_def
  by (induction evs arbitrary: s) (simp_all add: retired_perform registriesOk_perform)

lemma execGlobal_lostResolved:
  "lostResolved (snd (execGlobal env dev k d s)) = lostResolved s"
  by (simp add: execGlobal_def getCache_def deviceCreate_def subscribeLost_def Let_def
        split: option.splits)

lemma exec_lostResolved: "lostResolved (snd (exec env dev cl cs cid s)) = lostResolved s"
  by (cases cl)
     (simp_all add: exec_def Let_def execGlobal_lostResolved execLocal_registries
        execQueueEffect_def execPushFrame_def split: option.splits)

lemma lost_perform:
  "dev \<in> set (lostResolved s) \<Longrightarrow> dev \<in> set (lostResolved (perform env ev s))"
proof (cases ev)
  case (RunQueued a t)
  assume "dev \<in> set (lostResolved s)"
  then show ?thesis unfolding RunQueued
    by (cases a) (simp_all add: runQueued_def settle_def Let_def)
qed (simp_all add: exec_lostResolved dispose_eq deviceLost_def runMicrotasks_def resolveLost_def
       invokeThunk_def Let_def)

lemma lost_run:
  "dev \<in> set (lostResolved s) \<Longrightarrow> dev \<in> set (lostResolved (run env evs s))"
  unfolding run_def by (induction evs arbitrary: s) (simp_all add: lost_perform)

lemma lost_checkpoint:
  assumes "registriesOk s" and "dev \<in> set (lostResolved s)"
  shows "map_of (CACHE (runMicrotasks s) k) dev = None"
proof (cases "map_of (CACHE s k) dev")
  case None
  then show ?thesis by (simp add: runMicrotasks_def fold_onLost_CACHE)
next
  case (Some c)
  then have "(dev, k, c) \<in> set (pendingJobs s)"
    using assms(1) unfolding registriesOk_def by blast
  moreover have "(dev, k, c) \<notin> set (reactions s)"
    using assms unfolding registriesOk_def by force
  ultimately have "(dev, k, c) \<in> set (microtasks s)"
    by (simp add: pendingJobs_def)
  then show ?thesis by (auto simp: runMicrotasks_def fold_onLost_CACHE)
qed

lemma deviceLost_fields:
  "nextId (deviceLost dev s) = nextId s"
  "nextMap (deviceLost dev s) = nextMap s"
  "creations (deviceLost dev s) = creations s"
  "contexts (deviceLost dev s) = contexts s"
  "dev \<in> set (lostResolved (deviceLost dev s))"
  by (simp_all add: deviceLost_def runMicrotasks_def resolveLost_def)

lemma deviceLost_job:
  assumes "registriesOk s" and "dev \<notin> set (lostResolved s)"
    and "map_of (CACHE s k) dev = Some c"
  shows "(dev, k, c) \<in> set (microtasks (resolveLost dev s))"
proof -
  have "(dev, k, c) \<in> set (pendingJobs s)"
    using assms(1,3) unfolding registriesOk_def by blast
  moreover have "(dev, k, c) \<notin> set (microtasks s)"
    using assms(1,2) unfolding registriesOk_def by force
  ultimately have "(dev, k, c) \<in> set (reactions s)"
    by (simp add: pendingJobs_def)
  then show ?thesis using assms(2) by (simp add: resolveLost_def)
qed

lemma deviceLost_logs:
  assumes "registriesOk s"
  shows "logs (deviceLost dev s) =
           logs s @ map (clearedReport s) (microtasks (resolveLost dev s))"
proof -
  have ok: "registriesOk (resolveLost dev s)"
    by (rule registriesOk_resolveLost [OF assms])
  then have "distinct (map (\<lambda>j. snd (snd j)) (microtasks (resolveLost dev s)))"
    unfolding registriesOk_def pendingJobs_def by simp
  then have "logs (deviceLost dev s) =
      logs (resolveLost dev s) @
      map (clearedReport ((resolveLost dev s)\<lparr>microtasks := []\<rparr>)) (microtasks (resolveLost dev s))"
    by (simp add: deviceLost_def runMicrotasks_def fold_onLost_logs)
  moreover have "clearedReport ((resolveLost dev s)\<lparr>microtasks := []\<rparr>) = clearedReport s"
    by (simp add: fun_eq_iff clearedReport_def resolveLost_def)
  moreover have "logs (resolveLost dev s) = logs s"
    by (simp add: resolveLost_def)
  ultimately show ?thesis by simp
qed

lemma retired_after_loss:
  assumes "registriesOk s" and "dev \<notin> set (lostResolved s)"
    and "map_of (CACHE s k) dev = Some c"
  shows "retired c (deviceLost dev s)"
proof -
  have job: "(dev, k, c) \<in> set (microtasks (resolveLost dev s))"
    by (rule deviceLost_job [OF assms])
  then have "c \<in> (\<lambda>j. snd (snd j)) ` set (microtasks (resolveLost dev s))" by force
  then have empty: "maps (deviceLost dev s) c = []"
    by (simp add: deviceLost_def runMicrotasks_def fold_onLost_maps)
  have ok: "registriesOk (resolveLost dev s)"
    by (rule registriesOk_resolveLost [OF assms(1)])
  have d: "distinct (map (\<lambda>j. snd (snd j)) (pendingJobs (resolveLost dev s)))"
    using ok unfolding registriesOk_def by blast
  have "\<forall>j \<in> set (pendingJobs (resolveLost dev s)). snd (snd j) < nextMap (resolveLost dev s)"
    using ok unfolding registriesOk_def by blast
  then have lt: "c < nextMap (resolveLost dev s)"
    using job unfolding pendingJobs_def by force
  have "c \<notin> (\<lambda>j. snd (snd j)) ` set (reactions (resolveLost dev s))"
    using d job unfolding pendingJobs_def by force
  then show ?thesis
    using empty lt
    by (simp add: retired_def pendingJobs_def deviceLost_def runMicrotasks_def)
qed

lemma execGlobal_fresh_cache:
  assumes "map_of (CACHE s k) dev = None" and "deviceAccepts env dev (Global k) d"
  shows "map_of (CACHE (snd (execGlobal env dev k d s)) k) dev = Some (nextMap s)"
    and "maps (snd (execGlobal env dev k d s)) (nextMap s) =
           [(fst (globalResourceHash env d), Resource (nextId s))]"
  using assms
  by (simp_all add: execGlobal_world getCache_absent subscribeLost_def Let_def AList.update_conv')

subsection \<open>Eviction on device loss\<close>

text \<open>
  Claim C2. In a world whose registries are in order (every history from the module as
  loaded gives one, \<open>registriesOk_reachable\<close>), let the cache \<open>c\<close> be registered for a
  device whose lost signal has not fired. After the signal has fired and the handlers
  have run:
  \<^item> the log has a new entry reporting as many cleared items for the kind and the
    device as \<open>c\<close> had entries;
  \<^item> \<open>c\<close> is empty, and no registry of any kind has a cache for the device;
  \<^item> whatever happens later, \<open>c\<close> stays empty, and at every later microtask
    checkpoint no cache of any kind holds anything for the device;
  \<^item> a request for the device that the device accepts then calls the creation function
    and returns a resource that was not in \<open>c\<close>, stored in a new map object
    registered for the device, while \<open>c\<close> is still empty.
\<close>

theorem device_loss_eviction:
  fixes s :: "'fp world"
  assumes ok: "registriesOk s"
    and pend: "dev \<notin> set (lostResolved s)"
    and reg: "map_of (CACHE s k) dev = Some c"
  shows
    "Cleared k (length (maps s c)) (deviceInstanceId dev) \<in>
       set (drop (length (logs s)) (logs (deviceLost dev s))) \<and>
     maps (deviceLost dev s) c = [] \<and>
     (\<forall>k'. map_of (CACHE (deviceLost dev s) k') dev = None) \<and>
     (\<forall>k'. cached (deviceLost dev s) k' dev = []) \<and>
     (\<forall>evs. maps (run env evs (deviceLost dev s)) c = []) \<and>
     (\<forall>evs k'. cached (runMicrotasks (run env evs (deviceLost dev s))) k' dev = []) \<and>
     (deviceAccepts env dev (Global k) d \<longrightarrow>
        (let e = exec env dev (createGlobal k d) cs cid (deviceLost dev s)
         in fst e = Inr (Res (Resource (nextId s))) \<and>
            Resource (nextId s) \<notin> snd ` set (maps s c) \<and>
            creations (snd e) = creations s @ [(dev, Global k, d)] \<and>
            map_of (CACHE (snd e) k) dev = Some (nextMap s) \<and>
            nextMap s \<noteq> c \<and>
            maps (snd e) (nextMap s) = [(fst (globalResourceHash env d), Resource (nextId s))] \<and>
            maps (snd e) c = []))"
proof -
  let ?t = "deviceLost dev s"
  have job: "(dev, k, c) \<in> set (microtasks (resolveLost dev s))"
    by (rule deviceLost_job [OF ok pend reg])
  have ok1: "registriesOk (resolveLost dev s)"
    by (rule registriesOk_resolveLost [OF ok])
  have okt: "registriesOk ?t"
    by (rule registriesOk_deviceLost [OF ok])
  have ret: "retired c ?t"
    by (rule retired_after_loss [OF ok pend reg])
  have lost1: "dev \<in> set (lostResolved (resolveLost dev s))"
    by (simp add: resolveLost_def)
  have lostt: "dev \<in> set (lostResolved ?t)"
    by (rule deviceLost_fields)

  have "clearedReport s (dev, k, c) \<in> set (map (clearedReport s) (microtasks (resolveLost dev s)))"
    using job by force
  then have p1: "Cleared k (length (maps s c)) (deviceInstanceId dev) \<in>
       set (drop (length (logs s)) (logs ?t))"
    by (simp add: deviceLost_logs [OF ok] clearedReport_def)

  have p2: "maps ?t c = []"
    using ret by (simp add: retired_def)

  have p3: "\<forall>k'. map_of (CACHE ?t k') dev = None"
    using lost_checkpoint [OF ok1 lost1] by (simp add: deviceLost_def)
  then have p4: "\<forall>k'. cached ?t k' dev = []"
    by (simp add: cached_def)

  have p5: "\<forall>evs. maps (run env evs ?t) c = []"
    using retired_run [OF okt ret] by (simp add: retired_def)

  have p6: "\<forall>evs k'. cached (runMicrotasks (run env evs ?t)) k' dev = []"
    using lost_checkpoint [OF registriesOk_run [OF okt] lost_run [OF lostt]]
    by (simp add: cached_def)

  have p7: "let e = exec env dev (createGlobal k d) cs cid ?t
         in fst e = Inr (Res (Resource (nextId s))) \<and>
            Resource (nextId s) \<notin> snd ` set (maps s c) \<and>
            creations (snd e) = creations s @ [(dev, Global k, d)] \<and>
            map_of (CACHE (snd e) k) dev = Some (nextMap s) \<and>
            nextMap s \<noteq> c \<and>
            maps (snd e) (nextMap s) = [(fst (globalResourceHash env d), Resource (nextId s))] \<and>
            maps (snd e) c = []"
    if acc: "deviceAccepts env dev (Global k) d"
  proof -
    define t0 where "t0 = ?t\<lparr>contexts := (contexts ?t)(cid := initContext (contexts ?t cid))\<rparr>"
    have none: "map_of (CACHE t0 k) dev = None"
      using p3 by (simp add: t0_def)
    then have miss: "map_of (cached t0 k dev) (fst (globalResourceHash env d)) = None"
      by (simp add: cached_def)
    have f: "nextId t0 = nextId s" "nextMap t0 = nextMap s" "creations t0 = creations s"
      by (simp_all add: t0_def deviceLost_fields)
    have old: "\<forall>r \<in> snd ` set (maps s c). instanceId r < nextId s"
      using ok unfolding registriesOk_def by blast
    have new: "Resource (nextId s) \<notin> snd ` set (maps s c)"
      using old by fastforce
    have "(dev, k, c) \<in> set (pendingJobs s)"
      using ok reg unfolding registriesOk_def by blast
    moreover have "\<forall>j \<in> set (pendingJobs s). snd (snd j) < nextMap s"
      using ok unfolding registriesOk_def by blast
    ultimately have lt: "c < nextMap s" by force
    have "retired c (snd (exec env dev (createGlobal k d) cs cid ?t))"
      by (rule retired_exec [OF okt ret])
    then have still: "maps (snd (exec env dev (createGlobal k d) cs cid ?t)) c = []"
      by (simp add: retired_def)
    show ?thesis
      using execGlobal_miss(1,3) [OF miss acc] execGlobal_fresh_cache [OF none acc] new lt still
      by (simp add: Let_def exec_createGlobal t0_def [symmetric] f)
  qed
  show ?thesis
    using p1 p2 p3 p4 p5 p6 p7 by blast
qed

text \<open>
  Claim C2 after one shader module has been requested for device 7 in the module as
  loaded: the registries are in order, the signal has not fired, the shader cache of
  the device is map 0; the loss reports one cleared item, empties map 0 and removes
  it; the next request returns the new resource 1.
\<close>

theorem device_loss_eviction_witness:
  "registriesOk
     (run plainEnv [Exec (Device 7) (CreateShaderModule [(''code'', JStr ''x'')]) [''A''] 0]
        initialWorld) \<and>
   Device 7 \<notin> set (lostResolved
     (run plainEnv [Exec (Device 7) (CreateShaderModule [(''code'', JStr ''x'')]) [''A''] 0]
        initialWorld)) \<and>
   map_of (CACHE
     (run plainEnv [Exec (Device 7) (CreateShaderModule [(''code'', JStr ''x'')]) [''A''] 0]
        initialWorld) ShaderModule) (Device 7) = Some 0 \<and>
   Cleared ShaderModule 1 7 \<in> set (logs (deviceLost (Device 7)
     (run plainEnv [Exec (Device 7) (CreateShaderModule [(''code'', JStr ''x'')]) [''A''] 0]
        initialWorld))) \<and>
   maps (deviceLost (Device 7)
     (run plainEnv [Exec (Device 7) (CreateShaderModule [(''code'', JStr ''x'')]) [''A''] 0]
        initialWorld)) 0 = [] \<and>
   cached (deviceLost (Device 7)
     (run plainEnv [Exec (Device 7) (CreateShaderModule [(''code'', JStr ''x'')]) [''A''] 0]
        initialWorld)) ShaderModule (Device 7) = [] \<and>
   deviceAccepts plainEnv (Device 7) (Global ShaderModule) [(''code'', JStr ''x'')] \<and>
   fst (exec plainEnv (Device 7) (createGlobal ShaderModule [(''code'', JStr ''x'')]) [''A''] 0
     (deviceLost (Device 7)
       (run plainEnv [Exec (Device 7) (CreateShaderModule [(''code'', JStr ''x'')]) [''A''] 0]
          initialWorld))) = Inr (Res (Resource 1))"
proof -
  let ?d = "[(''code'', JStr ''x'')]"
  let ?w = "run plainEnv [Exec (Device 7) (CreateShaderModule ?d) [''A''] 0] initialWorld"
  define s0 :: "jsval world" where
    "s0 = initialWorld\<lparr>contexts := (contexts initialWorld)(0 := initContext (contexts initialWorld 0))\<rparr>"
  have w: "?w = snd (execGlobal plainEnv (Device 7) ShaderModule ?d s0)"
    by (simp add: run_def exec_def Let_def s0_def)
  have ok: "registriesOk ?w"
    by (rule registriesOk_run [OF registriesOk_initialWorld])
  have pend: "Device 7 \<notin> set (lostResolved ?w)"
    by (simp add: run_def exec_lostResolved initialWorld_def)
  have none: "map_of (CACHE s0 ShaderModule) (Device 7) = None"
    by (simp add: s0_def initialWorld_def)
  then have miss: "map_of (cached s0 ShaderModule (Device 7)) (fst (globalResourceHash plainEnv ?d)) = None"
    by (simp add: cached_def)
  have acc: "deviceAccepts plainEnv (Device 7) (Global ShaderModule) ?d"
    by (simp add: plainEnv_def)
  have z: "nextMap s0 = 0" "nextId s0 = 0" by (simp_all add: s0_def initialWorld_def)
  have reg: "map_of (CACHE ?w ShaderModule) (Device 7) = Some 0"
    using execGlobal_fresh_cache(1) [OF none acc] z by (simp add: w)
  have len: "length (maps ?w 0) = 1"
    using execGlobal_fresh_cache(2) [OF none acc] z by (simp add: w)
  have nxt: "nextId ?w = 1"
    using execGlobal_miss(4) [OF miss acc] z by (simp add: w)
  have "Cleared ShaderModule (length (maps ?w 0)) (deviceInstanceId (Device 7)) \<in>
      set (drop (length (logs ?w)) (logs (deviceLost (Device 7) ?w)))"
    using device_loss_eviction [OF ok pend reg, of plainEnv ?d "[''A'']" 0] by blast
  then have rep: "Cleared ShaderModule 1 7 \<in> set (logs (deviceLost (Device 7) ?w))"
    using len by (auto dest: in_set_dropD)
  show ?thesis
    using ok pend reg rep acc nxt device_loss_eviction [OF ok pend reg, of plainEnv ?d "[''A'']" 0]
    by (simp add: Let_def)
qed

lemma exec_local_hit:
  assumes "map_of (localCache k (contexts s cid)) (fst (localResourceHash env d dev)) = Some r"
  shows "exec env dev (createLocal k d) cs cid s =
           (Inr (Res r), s\<lparr>contexts := (contexts s)(cid := initContext (contexts s cid))\<rparr>)"
  using assms by (simp add: exec_createLocal execLocal_hit)

lemma exec_local_miss:
  assumes "map_of (localCache k (contexts s cid)) (fst (localResourceHash env d dev)) = None"
    and "deviceAccepts env dev (Local k) (snd (localResourceHash env d dev))"
  shows "fst (exec env dev (createLocal k d) cs cid s) = Inr (Res (Resource (nextId s)))"
    and "creations (snd (exec env dev (createLocal k d) cs cid s)) =
           creations s @ [(dev, Local k, snd (localResourceHash env d dev))]"
    and "nextId (snd (exec env dev (createLocal k d) cs cid s)) = Suc (nextId s)"
    and "localCache k' (contexts (snd (exec env dev (createLocal k d) cs cid s)) cid') =
           (if k' = k \<and> cid' = cid
            then AList.update (fst (localResourceHash env d dev)) (Resource (nextId s))
                   (localCache k (contexts s cid))
            else localCache k' (contexts s cid'))"
    and "destroyed (snd (exec env dev (createLocal k d) cs cid s)) = destroyed s"
proof -
  define s0 where "s0 = s\<lparr>contexts := (contexts s)(cid := initContext (contexts s cid))\<rparr>"
  have miss: "map_of (localCache k (contexts s0 cid)) (fst (localResourceHash env d dev)) = None"
    using assms(1) by (simp add: s0_def)
  note e = execLocal_miss [OF miss assms(2), of "stringHash env (join cs ''@'')"]
  show "fst (exec env dev (createLocal k d) cs cid s) = Inr (Res (Resource (nextId s)))"
    by (simp add: exec_createLocal s0_def [symmetric] e) (simp add: s0_def)
  show "creations (snd (exec env dev (createLocal k d) cs cid s)) =
           creations s @ [(dev, Local k, snd (localResourceHash env d dev))]"
    by (simp add: exec_createLocal s0_def [symmetric] e) (simp add: s0_def)
  show "nextId (snd (exec env dev (createLocal k d) cs cid s)) = Suc (nextId s)"
    by (simp add: exec_createLocal s0_def [symmetric] e) (simp add: s0_def)
  show "localCache k' (contexts (snd (exec env dev (createLocal k d) cs cid s)) cid') =
           (if k' = k \<and> cid' = cid
            then AList.update (fst (localResourceHash env d dev)) (Resource (nextId s))
                   (localCache k (contexts s cid))
            else localCache k' (contexts s cid'))"
    by (simp add: exec_createLocal s0_def [symmetric] e localCache_setLocalCache)
       (simp add: s0_def)
  show "destroyed (snd (exec env dev (createLocal k d) cs cid s)) = destroyed s"
    by (simp add: exec_createLocal s0_def [symmetric] e) (simp add: s0_def)
qed

subsection \<open>Local memoization\<close>

text \<open>
  Claim C6. For every local kind \<open>k\<close> (buffer, texture, bind group), device and
  descriptor \<open>d\<close> that the device accepts: when context \<open>c1\<close> has no entry for the
  fingerprint, the first request creates a resource, a second request in \<open>c1\<close> (with
  \<open>d\<close>, or with the descriptor object as the first call left it) returns that same
  resource, and one creation call has been made for both; the request in another
  context \<open>c2\<close> whose cache of the kind is empty calls the creation function again and
  returns a different resource. The fingerprint is the hash of the descriptor with the
  property \<^verbatim>\<open>owningDevice\<close> set to the identity of the device.
\<close>

theorem local_memoization_scoping:
  fixes s :: "'fp world"
  assumes miss: "map_of (localCache k (contexts s c1)) (fst (localResourceHash env d dev)) = None"
    and fresh: "localCache k (contexts s c2) = []"
    and diff: "c1 \<noteq> c2"
    and acc: "deviceAccepts env dev (Local k) (snd (localResourceHash env d dev))"
  shows
    "(let e1 = exec env dev (createLocal k d) cs c1 s;
          e2 = exec env dev (createLocal k d) cs' c1 (snd e1);
          e2' = exec env dev (createLocal k (snd (localResourceHash env d dev))) cs' c1 (snd e1);
          e3 = exec env dev (createLocal k d) cs'' c2 (snd e2)
      in fst e1 = Inr (Res (Resource (nextId s))) \<and>
         fst e2 = Inr (Res (Resource (nextId s))) \<and>
         fst e2' = Inr (Res (Resource (nextId s))) \<and>
         creations (snd e2) = creations s @ [(dev, Local k, snd (localResourceHash env d dev))] \<and>
         fst e3 = Inr (Res (Resource (Suc (nextId s)))) \<and>
         fst e3 \<noteq> fst e1 \<and>
         creations (snd e3) =
           creations (snd e2) @ [(dev, Local k, snd (localResourceHash env d dev))]) \<and>
     fst (localResourceHash env d dev) =
       hash env replacer (JObj (snd (localResourceHash env d dev))) \<and>
     map_of (snd (localResourceHash env d dev)) ''owningDevice'' =
       Some (tokenValue (deviceInstanceId dev))"
proof -
  let ?key = "fst (localResourceHash env d dev)"
  let ?d' = "snd (localResourceHash env d dev)"
  let ?r = "Resource (nextId s)"
  define s1 where "s1 = snd (exec env dev (createLocal k d) cs c1 s)"
  note m1 = exec_local_miss [OF miss acc, where cs = cs, folded s1_def]
  have hit: "map_of (localCache k (contexts s1 c1)) ?key = Some ?r"
    by (simp add: m1(4) AList.update_conv')
  have hit': "map_of (localCache k (contexts s1 c1)) (fst (localResourceHash env ?d' dev)) = Some ?r"
    using hit by (simp add: localResourceHash_again)
  define s2 where "s2 = s1\<lparr>contexts := (contexts s1)(c1 := initContext (contexts s1 c1))\<rparr>"
  have e2: "exec env dev (createLocal k d) cs' c1 s1 = (Inr (Res ?r), s2)"
    unfolding s2_def by (rule exec_local_hit [OF hit])
  have e2': "exec env dev (createLocal k ?d') cs' c1 s1 = (Inr (Res ?r), s2)"
    unfolding s2_def by (rule exec_local_hit [OF hit'])
  have "localCache k (contexts s2 c2) = []"
    using fresh diff by (simp add: s2_def m1(4))
  then have miss3: "map_of (localCache k (contexts s2 c2)) ?key = None" by simp
  have f2: "nextId s2 = Suc (nextId s)" "creations s2 = creations s @ [(dev, Local k, ?d')]"
    by (simp_all add: s2_def m1)
  note m3 = exec_local_miss [OF miss3 acc, where cs = cs'']
  show ?thesis
    using m1(1) e2 e2' m3(1,2) f2
    by (simp add: Let_def s1_def [symmetric] localResourceHash_owner
          localResourceHash_fingerprint [symmetric])
qed


text \<open>
  Claim C6 at the module as loaded, for the buffer descriptor
  \<^verbatim>\<open>{size: 256, label: "a"}\<close>, device 7, contexts 0 and 1: resource 0 twice in
  context 0, resource 1 in context 1.
\<close>

theorem local_memoization_scoping_witness:
  "map_of (localCache Buffer (contexts (initialWorld :: jsval world) 0))
      (fst (localResourceHash plainEnv [(''size'', JNum 256), (''label'', JStr ''a'')] (Device 7))) =
     None \<and>
   localCache Buffer (contexts (initialWorld :: jsval world) 1) = [] \<and>
   (0::nat) \<noteq> 1 \<and>
   deviceAccepts plainEnv (Device 7) (Local Buffer)
     (snd (localResourceHash plainEnv [(''size'', JNum 256), (''label'', JStr ''a'')] (Device 7))) \<and>
   (let e1 = exec plainEnv (Device 7)
               (createLocal Buffer [(''size'', JNum 256), (''label'', JStr ''a'')]) [''X''] 0
               initialWorld;
        e2 = exec plainEnv (Device 7)
               (createLocal Buffer [(''size'', JNum 256), (''label'', JStr ''a'')]) [''X''] 0 (snd e1);
        e3 = exec plainEnv (Device 7)
               (createLocal Buffer [(''size'', JNum 256), (''label'', JStr ''a'')]) [''X''] 1 (snd e2)
    in fst e1 = Inr (Res (Resource 0)) \<and> fst e2 = Inr (Res (Resource 0)) \<and>
       fst e3 = Inr (Res (Resource 1)))"
proof -
  let ?d = "[(''size'', JNum 256), (''label'', JStr ''a'')]"
  have miss: "map_of (localCache Buffer (contexts (initialWorld :: jsval world) 0))
      (fst (localResourceHash plainEnv ?d (Device 7))) = None"
    by (simp add: initialWorld_def newContext_def localCache_def)
  have fresh: "localCache Buffer (contexts (initialWorld :: jsval world) 1) = []"
    by (simp add: initialWorld_def newContext_def localCache_def)
  have diff: "(0::nat) \<noteq> 1" by simp
  have acc: "deviceAccepts plainEnv (Device 7) (Local Buffer)
      (snd (localResourceHash plainEnv ?d (Device 7)))"
    by (simp add: plainEnv_def)
  have n: "nextId (initialWorld :: jsval world) = 0" by (simp add: initialWorld_def)
  show ?thesis
    using miss fresh acc n
      local_memoization_scoping [OF miss fresh diff acc, of "[''X'']" "[''X'']" "[''X'']"]
    by (simp add: Let_def)
qed

subsection \<open>Disposal\<close>

lemma count_list_distinct:
  "distinct xs \<Longrightarrow> count_list xs x = (if x \<in> set xs then 1 else 0)"
  by (induction xs) auto

lemma disposeCalls_eq:
  "disposeCalls cid s =
     map snd (entries (textures (contexts s cid))) @ map snd (entries (buffers (contexts s cid)))"
  by (simp add: disposeCalls_def dispose_eq)

text \<open>
  Claim C3, amended: \<open>dispose\<close> of a context calls \<^verbatim>\<open>destroy\<close> on the resources of that
  context's texture cache and buffer cache, in that order, and on nothing else; it
  leaves every context (the disposed one and its caches included), the registries and
  their maps as they were. In a world whose local caches are in order (every history
  from the module as loaded gives one, \<open>localsOk_reachable\<close>) each of those buffers and
  textures is destroyed exactly once by the call, and no bind group of the context
  and no resource of another context is destroyed.
\<close>

theorem dispose_completeness_locality:
  fixes s :: "'fp world"
  shows
    "disposeCalls cid s =
       map snd (entries (textures (contexts s cid))) @
       map snd (entries (buffers (contexts s cid))) \<and>
     destroyed (dispose cid s) = destroyed s @ disposeCalls cid s \<and>
     contexts (dispose cid s) = contexts s \<and>
     CACHE (dispose cid s) = CACHE s \<and>
     maps (dispose cid s) = maps s \<and>
     (localsOk s \<longrightarrow>
        (\<forall>r. count_list (disposeCalls cid s) r =
              (if r \<in> snd ` set (entries (textures (contexts s cid))) \<union>
                      snd ` set (entries (buffers (contexts s cid)))
               then 1 else 0)) \<and>
        (\<forall>r \<in> snd ` set (entries (bindGroups (contexts s cid))).
            r \<notin> set (disposeCalls cid s)) \<and>
        (\<forall>cid'. cid' \<noteq> cid \<longrightarrow>
           (\<forall>r \<in> set (localResources (contexts s cid')). r \<notin> set (disposeCalls cid s))))"
proof -
  have a: "destroyed (dispose cid s) = destroyed s @ disposeCalls cid s"
    "contexts (dispose cid s) = contexts s" "CACHE (dispose cid s) = CACHE s"
    "maps (dispose cid s) = maps s"
    by (simp_all add: disposeCalls_eq dispose_eq)
  have b: "(\<forall>r. count_list (disposeCalls cid s) r =
              (if r \<in> snd ` set (entries (textures (contexts s cid))) \<union>
                      snd ` set (entries (buffers (contexts s cid)))
               then 1 else 0)) \<and>
        (\<forall>r \<in> snd ` set (entries (bindGroups (contexts s cid))).
            r \<notin> set (disposeCalls cid s)) \<and>
        (\<forall>cid'. cid' \<noteq> cid \<longrightarrow>
           (\<forall>r \<in> set (localResources (contexts s cid')). r \<notin> set (disposeCalls cid s)))"
    if ok: "localsOk s"
  proof -
    have d: "distinct (localResources (contexts s cid))"
      using ok unfolding localsOk_def by blast
    then have d1: "distinct (disposeCalls cid s)"
      by (auto simp: disposeCalls_eq localResources_def)
    have sub: "set (disposeCalls cid s) \<subseteq> set (localResources (contexts s cid))"
      by (auto simp: disposeCalls_eq localResources_def)
    have c1: "\<forall>r. count_list (disposeCalls cid s) r =
              (if r \<in> snd ` set (entries (textures (contexts s cid))) \<union>
                      snd ` set (entries (buffers (contexts s cid)))
               then 1 else 0)"
      using count_list_distinct [OF d1] by (simp add: disposeCalls_eq)
    have c2: "\<forall>r \<in> snd ` set (entries (bindGroups (contexts s cid))).
            r \<notin> set (disposeCalls cid s)"
      using d by (auto simp: disposeCalls_eq localResources_def)
    have c3: "\<forall>cid'. cid' \<noteq> cid \<longrightarrow>
           (\<forall>r \<in> set (localResources (contexts s cid')). r \<notin> set (disposeCalls cid s))"
    proof (intro allI impI ballI)
      fix cid' r assume ne: "cid' \<noteq> cid" and r: "r \<in> set (localResources (contexts s cid'))"
      have "set (localResources (contexts s cid')) \<inter> set (localResources (contexts s cid)) = {}"
        using ok ne unfolding localsOk_def by blast
      then show "r \<notin> set (disposeCalls cid s)" using r sub by blast
    qed
    show ?thesis using c1 c2 c3 by blast
  qed
  show ?thesis using a b disposeCalls_eq [of cid s] by blast
qed


text \<open>
  Claim C3, as stated, after one buffer has been requested in context 0 of the module as
  loaded: once the context is disposed its buffer cache is still there and still holds
  the buffer, which has been destroyed. The claim says the caches are discarded.
\<close>

theorem dispose_keeps_caches:
  "buffers (contexts (dispose 0
      (snd (exec plainEnv (Device 7) (CreateBuffer [(''size'', JNum 256)]) [''X''] 0 initialWorld)))
      0) =
     Some [(JObj [(''size'', JNum 256), (''owningDevice'', JNum 7)], Resource 0)] \<and>
   destroyed (dispose 0
      (snd (exec plainEnv (Device 7) (CreateBuffer [(''size'', JNum 256)]) [''X''] 0 initialWorld))) =
     [Resource 0]"
  by (simp add: dispose_eq eval_defs)

text \<open>
  Claim C3, amended, after a texture, a buffer and a bind group have been requested in
  context 0 and a buffer in context 1: disposing context 0 destroys the texture 0 and the
  buffer 1, once each, and neither the bind group 2 nor the buffer 3 of context 1.
\<close>

theorem dispose_completeness_locality_witness:
  "localsOk (run plainEnv
     [Exec (Device 7) (CreateTexture [(''format'', JStr ''rgba8unorm'')]) [''T''] 0,
      Exec (Device 7) (CreateBuffer [(''size'', JNum 256)]) [''B''] 0,
      Exec (Device 7) (CreateBindGroup [(''layout'', JNum 3)]) [''G''] 0,
      Exec (Device 7) (CreateBuffer [(''size'', JNum 256)]) [''B''] 1] initialWorld) \<and>
   disposeCalls 0 (run plainEnv
     [Exec (Device 7) (CreateTexture [(''format'', JStr ''rgba8unorm'')]) [''T''] 0,
      Exec (Device 7) (CreateBuffer [(''size'', JNum 256)]) [''B''] 0,
      Exec (Device 7) (CreateBindGroup [(''layout'', JNum 3)]) [''G''] 0,
      Exec (Device 7) (CreateBuffer [(''size'', JNum 256)]) [''B''] 1] initialWorld) =
     [Resource 0, Resource 1] \<and>
   count_list (disposeCalls 0 (run plainEnv
     [Exec (Device 7) (CreateTexture [(''format'', JStr ''rgba8unorm'')]) [''T''] 0,
      Exec (Device 7) (CreateBuffer [(''size'', JNum 256)]) [''B''] 0,
      Exec (Device 7) (CreateBindGroup [(''layout'', JNum 3)]) [''G''] 0,
      Exec (Device 7) (CreateBuffer [(''size'', JNum 256)]) [''B''] 1] initialWorld))
     (Resource 1) = 1 \<and>
   Resource 2 \<notin> set (disposeCalls 0 (run plainEnv
     [Exec (Device 7) (CreateTexture [(''format'', JStr ''rgba8unorm'')]) [''T''] 0,
      Exec (Device 7) (CreateBuffer [(''size'', JNum 256)]) [''B''] 0,
      Exec (Device 7) (CreateBindGroup [(''layout'', JNum 3)]) [''G''] 0,
      Exec (Device 7) (CreateBuffer [(''size'', JNum 256)]) [''B''] 1] initialWorld)) \<and>
   Resource 3 \<notin> set (disposeCalls 0 (run plainEnv
     [Exec (Device 7) (CreateTexture [(''format'', JStr ''rgba8unorm'')]) [''T''] 0,
      Exec (Device 7) (CreateBuffer [(''size'', JNum 256)]) [''B''] 0,
      Exec (Device 7) (CreateBindGroup [(''layout'', JNum 3)]) [''G''] 0,
      Exec (Device 7) (CreateBuffer [(''size'', JNum 256)]) [''B''] 1] initialWorld))"
proof -
  define w :: "jsval world" where "w = run plainEnv
     [Exec (Device 7) (CreateTexture [(''format'', JStr ''rgba8unorm'')]) [''T''] 0,
      Exec (Device 7) (CreateBuffer [(''size'', JNum 256)]) [''B''] 0,
      Exec (Device 7) (CreateBindGroup [(''layout'', JNum 3)]) [''G''] 0,
      Exec (Device 7) (CreateBuffer [(''size'', JNum 256)]) [''B''] 1] initialWorld"
  have ok: "localsOk w"
    unfolding w_def by (rule localsOk_run [OF localsOk_initialWorld])
  have held: "map snd (entries (textures (contexts w 0))) = [Resource 0]"
    "map snd (entries (buffers (contexts w 0))) = [Resource 1]"
    "map snd (entries (bindGroups (contexts w 0))) = [Resource 2]"
    "localResources (contexts w 1) = [Resource 3]"
    unfolding w_def by (simp_all add: eval_defs localResources_def)
  have "localsOk w \<and> disposeCalls 0 w = [Resource 0, Resource 1] \<and>
      count_list (disposeCalls 0 w) (Resource 1) = 1 \<and>
      Resource 2 \<notin> set (disposeCalls 0 w) \<and> Resource 3 \<notin> set (disposeCalls 0 w)"
    using ok held dispose_completeness_locality [of 0 w] by simp
  then show ?thesis unfolding w_def .
qed

text \<open>
  Claim C10. When the buffer cache or the texture cache of a context holds the resource
  \<open>r\<close> for the fingerprint of a descriptor (as it does after the request that created
  \<open>r\<close>, \<open>exec_local_miss\<close>): \<open>dispose\<close> calls \<^verbatim>\<open>destroy\<close> on \<open>r\<close> and leaves the
  context as it was; the same request after it returns \<open>r\<close>, already destroyed, and
  makes no creation call; a second \<open>dispose\<close> makes the same \<^verbatim>\<open>destroy\<close> calls again.
\<close>

theorem dispose_leaves_destroyed_entries:
  fixes s :: "'fp world"
  assumes kind: "k = Buffer \<or> k = Texture"
    and held: "map_of (localCache k (contexts s cid)) (fst (localResourceHash env d dev)) = Some r"
  shows
    "contexts (dispose cid s) = contexts s \<and>
     r \<in> set (disposeCalls cid s) \<and>
     (let e = exec env dev (createLocal k d) cs cid (dispose cid s)
      in fst e = Inr (Res r) \<and>
         creations (snd e) = creations s \<and>
         r \<in> set (destroyed (snd e))) \<and>
     disposeCalls cid (dispose cid s) = disposeCalls cid s \<and>
     destroyed (dispose cid (dispose cid s)) =
       destroyed s @ disposeCalls cid s @ disposeCalls cid s"
proof -
  have same: "contexts (dispose cid s) = contexts s"
    by (simp add: dispose_eq)
  have "(fst (localResourceHash env d dev), r) \<in> set (localCache k (contexts s cid))"
    using held by (rule map_of_SomeD)
  then have "r \<in> snd ` set (localCache k (contexts s cid))"
    by force
  then have called: "r \<in> set (disposeCalls cid s)"
    using kind by (auto simp: disposeCalls_eq localCache_def)
  have held': "map_of (localCache k (contexts (dispose cid s) cid))
      (fst (localResourceHash env d dev)) = Some r"
    using held by (simp add: same)
  have again: "let e = exec env dev (createLocal k d) cs cid (dispose cid s)
      in fst e = Inr (Res r) \<and>
         creations (snd e) = creations s \<and>
         r \<in> set (destroyed (snd e))"
    using called
    by (simp add: exec_local_hit [OF held'] Let_def) (simp add: dispose_eq disposeCalls_eq)
  have twice: "disposeCalls cid (dispose cid s) = disposeCalls cid s"
    by (simp add: disposeCalls_eq same)
  have log: "destroyed (dispose cid (dispose cid s)) =
       destroyed s @ disposeCalls cid s @ disposeCalls cid s"
    by (simp add: dispose_eq disposeCalls_eq)
  show ?thesis using same called again twice log by blast
qed

text \<open>
  Claim C10 after a buffer has been requested in context 0 of the module as loaded:
  the cache holds resource 0; after \<open>dispose\<close> the same request returns resource 0;
  two disposals have destroyed it twice.
\<close>

theorem dispose_leaves_destroyed_entries_witness:
  "map_of (localCache Buffer (contexts
      (snd (exec plainEnv (Device 7) (CreateBuffer [(''size'', JNum 256)]) [''X''] 0 initialWorld)) 0))
      (fst (localResourceHash plainEnv [(''size'', JNum 256)] (Device 7))) = Some (Resource 0) \<and>
   fst (exec plainEnv (Device 7) (createLocal Buffer [(''size'', JNum 256)]) [''X''] 0
     (dispose 0
       (snd (exec plainEnv (Device 7) (CreateBuffer [(''size'', JNum 256)]) [''X''] 0 initialWorld)))) =
     Inr (Res (Resource 0)) \<and>
   Resource 0 \<in> set (disposeCalls 0
     (snd (exec plainEnv (Device 7) (CreateBuffer [(''size'', JNum 256)]) [''X''] 0 initialWorld))) \<and>
   destroyed (dispose 0 (dispose 0
     (snd (exec plainEnv (Device 7) (CreateBuffer [(''size'', JNum 256)]) [''X''] 0 initialWorld)))) =
     [Resource 0, Resource 0]"
proof -
  define w :: "jsval world" where
    "w = snd (exec plainEnv (Device 7) (CreateBuffer [(''size'', JNum 256)]) [''X''] 0 initialWorld)"
  have kind: "Buffer = Buffer \<or> Buffer = Texture" by simp
  have held: "map_of (localCache Buffer (contexts w 0))
      (fst (localResourceHash plainEnv [(''size'', JNum 256)] (Device 7))) = Some (Resource 0)"
    unfolding w_def by (simp add: eval_defs)
  have d: "destroyed w = []" "disposeCalls 0 w = [Resource 0]"
    unfolding w_def by (simp_all add: disposeCalls_eq eval_defs)
  have "map_of (localCache Buffer (contexts w 0))
      (fst (localResourceHash plainEnv [(''size'', JNum 256)] (Device 7))) = Some (Resource 0) \<and>
    fst (exec plainEnv (Device 7) (createLocal Buffer [(''size'', JNum 256)]) [''X''] 0 (dispose 0 w)) =
      Inr (Res (Resource 0)) \<and>
    Resource 0 \<in> set (disposeCalls 0 w) \<and>
    destroyed (dispose 0 (dispose 0 w)) = [Resource 0, Resource 0]"
    using held d dispose_leaves_destroyed_entries [OF kind held, of "[''X'']"]
    by (simp add: Let_def)
  then show ?thesis unfolding w_def .
qed

end
